theory Spec2Isabelle
  imports Complex_Main
begin

text \<open>
  A shallow embedding of the streaming protocol bridge of ccs: the frame parser
  (sse-parser.js), the stream accumulator (delta-accumulator.js) and the streaming and
  buffered transformers (glmt-transformer.js), which turn an OpenAI-style completion
  stream into Anthropic-style message events. Mutable objects are records passed in and
  returned; a function that can throw returns the state as the exception leaves it
  together with the exception or its result.
\<close>

section \<open>Errors and host services\<close>

text \<open>
  Every \<^verbatim>\<open>throw new Error(...)\<close> of the three source files is a constructor here; the
  number is the limit quoted in the message. \<open>TypeError\<close> stands for the runtime's own
  exception on a property read of \<^verbatim>\<open>null\<close> or \<^verbatim>\<open>undefined\<close>, on iterating a value that
  is not iterable and on calling something that is not a function.
\<close>

datatype error =
    MaxBlocksExceeded nat
  | ThinkingBufferExceeded nat
  | TextBufferExceeded nat
  | SSEBufferExceeded nat
  | TypeError

fun resource_limit :: "error \<Rightarrow> bool" where
  "resource_limit TypeError = False"
| "resource_limit _ = True"

text \<open>
  The transformer reads two things it does not compute itself: the SHA-256 digest of
  \<^verbatim>\<open>crypto\<close> (as a hexadecimal string) and the clock \<^verbatim>\<open>Date.now()\<close>. Both are
  parameters of the model.
\<close>

record host =
  sha256_hex :: "string \<Rightarrow> string"
  now :: int

text \<open>JavaScript truthiness of an optional string and of an optional number.\<close>

fun truthy :: "string option \<Rightarrow> bool" where
  "truthy None = False"
| "truthy (Some s) = (s \<noteq> [])"

fun num_or :: "int option \<Rightarrow> int \<Rightarrow> int" where
  "num_or None d = d"
| "num_or (Some n) d = (if n \<noteq> 0 then n else d)"

section \<open>Stream accumulator (delta-accumulator.js)\<close>

record content_block =
  index :: int
  type :: string
  content :: string
  started :: bool
  stopped :: bool

record tool_call =
  tc_index :: int
  tc_id :: string
  tc_type :: string
  tc_name :: string
  tc_arguments :: string

text \<open>
  \<open>toolCalls\<close> and \<open>toolCallsIndex\<close> hold the same objects in the source; the model
  keeps the objects in \<open>toolCalls\<close> and lets \<open>toolCallsIndex\<close> map a call index to the
  position of its object there. \<open>model = None\<close> is \<^verbatim>\<open>null\<close>, as is
  \<open>finishReason = None\<close>. The fields for loop detection and the stored thinking
  configuration are read by no function modelled here and are left out.
\<close>

record accumulator =
  messageId :: string
  model :: "string option"
  role :: string
  contentBlocks :: "content_block list"
  currentBlockIndex :: int
  toolCalls :: "tool_call list"
  toolCallsIndex :: "(int \<times> nat) list"
  thinkingBuffer :: string
  textBuffer :: string
  maxBlocks :: nat
  maxBufferSize :: nat
  messageStarted :: bool
  finalized :: bool
  usageReceived :: bool
  inputTokens :: int
  outputTokens :: int
  finishReason :: "string option"

record accumulator_options =
  opt_maxBlocks :: "nat option"
  opt_maxBufferSize :: "nat option"

fun nat_or :: "nat option \<Rightarrow> nat \<Rightarrow> nat" where
  "nat_or None d = d"
| "nat_or (Some n) d = (if n \<noteq> 0 then n else d)"

text \<open>
  The constructor. The message id is built from the clock and a random number; it is a
  parameter.
\<close>

definition DeltaAccumulator :: "string \<Rightarrow> accumulator_options \<Rightarrow> accumulator" where
  "DeltaAccumulator mid options =
     \<lparr> messageId = mid, model = None, role = ''assistant'',
       contentBlocks = [], currentBlockIndex = - 1,
       toolCalls = [], toolCallsIndex = [],
       thinkingBuffer = [], textBuffer = [],
       maxBlocks = nat_or (opt_maxBlocks options) 100,
       maxBufferSize = nat_or (opt_maxBufferSize options) (10 * 1024 * 1024),
       messageStarted = False, finalized = False, usageReceived = False,
       inputTokens = 0, outputTokens = 0, finishReason = None \<rparr>"

definition getCurrentBlock :: "accumulator \<Rightarrow> content_block option" where
  "getCurrentBlock acc =
     (if 0 \<le> currentBlockIndex acc \<and> currentBlockIndex acc < int (length (contentBlocks acc))
      then Some (contentBlocks acc ! nat (currentBlockIndex acc))
      else None)"

definition startBlock :: "string \<Rightarrow> accumulator \<Rightarrow> accumulator \<times> (error + content_block)" where
  "startBlock ty acc =
     (if maxBlocks acc \<le> length (contentBlocks acc)
      then (acc, Inl (MaxBlocksExceeded (maxBlocks acc)))
      else
        let i = currentBlockIndex acc + 1;
            block = \<lparr> index = i, type = ty, content = [], started = True, stopped = False \<rparr>;
            acc1 = acc \<lparr> currentBlockIndex := i, contentBlocks := contentBlocks acc @ [block] \<rparr>;
            acc2 = (if ty = ''thinking'' then acc1 \<lparr> thinkingBuffer := [] \<rparr>
                    else if ty = ''text'' then acc1 \<lparr> textBuffer := [] \<rparr>
                    else acc1)
        in (acc2, Inr block))"

definition addDelta :: "string \<Rightarrow> accumulator \<Rightarrow> accumulator \<times> (error + unit)" where
  "addDelta d acc =
     (case getCurrentBlock acc of
        None \<Rightarrow> (acc, Inr ())
      | Some block \<Rightarrow>
          if type block = ''thinking'' then
            if maxBufferSize acc < length (thinkingBuffer acc) + length d
            then (acc, Inl (ThinkingBufferExceeded (maxBufferSize acc)))
            else
              let buf = thinkingBuffer acc @ d
              in (acc \<lparr> thinkingBuffer := buf,
                        contentBlocks := (contentBlocks acc)
                          [nat (currentBlockIndex acc) := block \<lparr> content := buf \<rparr>] \<rparr>, Inr ())
          else if type block = ''text'' then
            if maxBufferSize acc < length (textBuffer acc) + length d
            then (acc, Inl (TextBufferExceeded (maxBufferSize acc)))
            else
              let buf = textBuffer acc @ d
              in (acc \<lparr> textBuffer := buf,
                        contentBlocks := (contentBlocks acc)
                          [nat (currentBlockIndex acc) := block \<lparr> content := buf \<rparr>] \<rparr>, Inr ())
          else (acc, Inr ()))"

definition stopCurrentBlock :: "accumulator \<Rightarrow> accumulator" where
  "stopCurrentBlock acc =
     (case getCurrentBlock acc of
        None \<Rightarrow> acc
      | Some block \<Rightarrow>
          acc \<lparr> contentBlocks := (contentBlocks acc)
                  [nat (currentBlockIndex acc) := block \<lparr> stopped := True \<rparr>] \<rparr>)"

record usage =
  prompt_tokens :: "int option"
  input_tokens :: "int option"
  completion_tokens :: "int option"
  output_tokens :: "int option"

definition updateUsage :: "usage option \<Rightarrow> accumulator \<Rightarrow> accumulator" where
  "updateUsage u acc =
     (case u of
        None \<Rightarrow> acc
      | Some us \<Rightarrow>
          acc \<lparr> inputTokens := num_or (prompt_tokens us) (num_or (input_tokens us) 0),
                outputTokens := num_or (completion_tokens us) (num_or (output_tokens us) 0),
                usageReceived := True \<rparr>)"

text \<open>
  One fragment of a streamed tool call: \<^verbatim>\<open>{index, id?, type?, function?: {name?, arguments?}}\<close>.
\<close>

record tool_call_function_delta =
  fd_name :: "string option"
  fd_arguments :: "string option"

record tool_call_delta =
  tcd_index :: int
  tcd_id :: "string option"
  tcd_type :: "string option"
  tcd_function :: "tool_call_function_delta option"

definition addToolCallDelta :: "tool_call_delta \<Rightarrow> accumulator \<Rightarrow> accumulator" where
  "addToolCallDelta toolCallDelta acc =
     (let idx = tcd_index toolCallDelta;
          acc1 = (case map_of (toolCallsIndex acc) idx of
                    Some _ \<Rightarrow> acc
                  | None \<Rightarrow>
                      acc \<lparr> toolCalls := toolCalls acc @
                               [\<lparr> tc_index = idx, tc_id = [], tc_type = ''function'',
                                  tc_name = [], tc_arguments = [] \<rparr>],
                            toolCallsIndex := (idx, length (toolCalls acc)) # toolCallsIndex acc \<rparr>);
          p = (case map_of (toolCallsIndex acc1) idx of Some q \<Rightarrow> q | None \<Rightarrow> 0);
          t0 = toolCalls acc1 ! p;
          t1 = (if truthy (tcd_id toolCallDelta) then t0 \<lparr> tc_id := the (tcd_id toolCallDelta) \<rparr> else t0);
          t2 = (if truthy (tcd_type toolCallDelta) then t1 \<lparr> tc_type := the (tcd_type toolCallDelta) \<rparr> else t1);
          t3 = (case tcd_function toolCallDelta of
                  None \<Rightarrow> t2
                | Some f \<Rightarrow>
                    (if truthy (fd_name f) then t2 \<lparr> tc_name := tc_name t2 @ the (fd_name f) \<rparr> else t2));
          t4 = (case tcd_function toolCallDelta of
                  None \<Rightarrow> t3
                | Some f \<Rightarrow>
                    (if truthy (fd_arguments f)
                     then t3 \<lparr> tc_arguments := tc_arguments t3 @ the (fd_arguments f) \<rparr> else t3))
      in acc1 \<lparr> toolCalls := (toolCalls acc1) [p := t4] \<rparr>)"

definition getToolCalls :: "accumulator \<Rightarrow> tool_call list" where
  "getToolCalls acc = toolCalls acc"

section \<open>Streaming transformer (glmt-transformer.js)\<close>

subsection \<open>Upstream events\<close>

text \<open>
  An upstream event is what the frame parser returns: \<^verbatim>\<open>{event, data, index, id?, retry?}\<close>,
  with \<open>sse_data = None\<close> for \<^verbatim>\<open>data: null\<close>. \<open>retry\<close> is the result of \<^verbatim>\<open>parseInt\<close>,
  which is a number or \<^verbatim>\<open>NaN\<close>. The transformer reads the payload in the shape of the
  upstream wire format: \<^verbatim>\<open>{choices: [{delta: {role?, content?, reasoning_content?,
  tool_calls?}, finish_reason?}], model?, usage?}\<close>; an absent \<^verbatim>\<open>choices\<close> is the empty list.
\<close>

datatype js_number = NaN | Num int

record 'j sse_event =
  sse_event :: string
  sse_data :: "'j option"
  sse_index :: nat
  sse_id :: "string option"
  sse_retry :: "js_number option"

record delta =
  d_role :: "string option"
  d_reasoning_content :: "string option"
  d_content :: "string option"
  d_tool_calls :: "tool_call_delta list"

record choice =
  c_delta :: "delta option"
  c_finish_reason :: "string option"

record chunk =
  choices :: "choice list"
  chunk_model :: "string option"
  chunk_usage :: "usage option"

subsection \<open>Downstream events\<close>

record signature =
  sig_type :: string
  hash :: string
  sig_length :: nat
  timestamp :: int

record message =
  m_id :: string
  m_type :: string
  m_role :: string
  m_model :: string
  m_input_tokens :: int
  m_output_tokens :: int

datatype block_delta = thinking_delta string | text_delta string

text \<open>
  The \<^verbatim>\<open>data\<close> object of a downstream event, one constructor per value of its
  \<^verbatim>\<open>type\<close> field.
\<close>

datatype payload =
    message_start message
  | content_block_start int string
  | content_block_delta int block_delta
  | signature_delta int signature
  | content_block_stop int
  | message_delta string int
  | message_stop

record anthropic_event =
  event :: string
  data :: payload

definition generateThinkingSignature :: "host \<Rightarrow> string \<Rightarrow> signature" where
  "generateThinkingSignature h thinking =
     \<lparr> sig_type = ''thinking_signature'',
       hash = take 16 (sha256_hex h thinking),
       sig_length = length thinking,
       timestamp = now h \<rparr>"

text \<open>
  The table of \<^verbatim>\<open>_mapStopReason\<close>: its four own keys, and \<^verbatim>\<open>end_turn\<close> otherwise. A
  finish reason that names a property every object inherits (such as \<^verbatim>\<open>constructor\<close>) is
  outside the model.
\<close>

definition mapStopReason :: "string \<Rightarrow> string" where
  "mapStopReason openaiReason =
     (if openaiReason = ''stop'' then ''end_turn''
      else if openaiReason = ''length'' then ''max_tokens''
      else if openaiReason = ''tool_calls'' then ''tool_use''
      else if openaiReason = ''content_filter'' then ''stop_sequence''
      else ''end_turn'')"

definition createMessageStartEvent :: "accumulator \<Rightarrow> anthropic_event" where
  "createMessageStartEvent acc =
     \<lparr> event = ''message_start'',
       data = message_start
         \<lparr> m_id = messageId acc, m_type = ''message'', m_role = role acc,
           m_model = (if truthy (model acc) then the (model acc) else ''glm-4.6''),
           m_input_tokens = inputTokens acc, m_output_tokens = 0 \<rparr> \<rparr>"

definition createContentBlockStartEvent :: "content_block \<Rightarrow> anthropic_event" where
  "createContentBlockStartEvent block =
     \<lparr> event = ''content_block_start'', data = content_block_start (index block) (type block) \<rparr>"

definition createThinkingDeltaEvent :: "content_block \<Rightarrow> string \<Rightarrow> anthropic_event" where
  "createThinkingDeltaEvent block d =
     \<lparr> event = ''content_block_delta'', data = content_block_delta (index block) (thinking_delta d) \<rparr>"

definition createTextDeltaEvent :: "content_block \<Rightarrow> string \<Rightarrow> anthropic_event" where
  "createTextDeltaEvent block d =
     \<lparr> event = ''content_block_delta'', data = content_block_delta (index block) (text_delta d) \<rparr>"

definition createSignatureDeltaEvent :: "host \<Rightarrow> content_block \<Rightarrow> anthropic_event" where
  "createSignatureDeltaEvent h block =
     \<lparr> event = ''signature_delta'',
       data = signature_delta (index block) (generateThinkingSignature h (content block)) \<rparr>"

definition createContentBlockStopEvent :: "content_block \<Rightarrow> anthropic_event" where
  "createContentBlockStopEvent block =
     \<lparr> event = ''content_block_stop'', data = content_block_stop (index block) \<rparr>"

subsection \<open>finalizeDelta\<close>

definition finalizeDelta :: "host \<Rightarrow> accumulator \<Rightarrow> accumulator \<times> anthropic_event list" where
  "finalizeDelta h acc =
     (if finalized acc then (acc, [])
      else
        let (acc1, events) =
              (case getCurrentBlock acc of
                 None \<Rightarrow> (acc, [])
               | Some currentBlock \<Rightarrow>
                   if \<not> stopped currentBlock
                   then (stopCurrentBlock acc,
                         (if type currentBlock = ''thinking''
                          then [createSignatureDeltaEvent h currentBlock] else []) @
                         [createContentBlockStopEvent currentBlock])
                   else (acc, []))
        in (acc1 \<lparr> finalized := True \<rparr>,
            events @
            [\<lparr> event = ''message_delta'',
               data = message_delta
                 (mapStopReason (if truthy (finishReason acc1) then the (finishReason acc1) else ''stop''))
                 (outputTokens acc1) \<rparr>,
             \<lparr> event = ''message_stop'', data = message_stop \<rparr>]))"

subsection \<open>transformDelta\<close>

text \<open>
  \<^verbatim>\<open>transformDelta\<close> is modelled section by section, in the order of its comments. A
  section returns the accumulator as it has left it and either the events it pushed or
  the exception that left the function; the events already pushed are lost with the
  local array when that happens. \<open>open_block\<close> is the pair of statements
  \<^verbatim>\<open>const block = accumulator.startBlock(t); events.push(this._createContentBlockStartEvent(block))\<close>.
\<close>

definition open_block :: "string \<Rightarrow> accumulator \<Rightarrow> accumulator \<times> (error + anthropic_event list)" where
  "open_block ty acc =
     (case startBlock ty acc of
        (acc1, Inl e) \<Rightarrow> (acc1, Inl e)
      | (acc1, Inr block) \<Rightarrow> (acc1, Inr [createContentBlockStartEvent block]))"

definition message_start_section :: "chunk \<Rightarrow> accumulator \<Rightarrow> accumulator \<times> anthropic_event list" where
  "message_start_section d acc =
     (if \<not> messageStarted acc then
        let acc1 = (if truthy (chunk_model d) then acc \<lparr> model := chunk_model d \<rparr> else acc)
        in (acc1 \<lparr> messageStarted := True \<rparr>, [createMessageStartEvent acc1])
      else (acc, []))"

definition role_section :: "delta \<Rightarrow> accumulator \<Rightarrow> accumulator" where
  "role_section dl acc = (if truthy (d_role dl) then acc \<lparr> role := the (d_role dl) \<rparr> else acc)"

definition reasoning_section ::
  "string \<Rightarrow> accumulator \<Rightarrow> accumulator \<times> (error + anthropic_event list)" where
  "reasoning_section rc acc =
     (case (case getCurrentBlock acc of
              None \<Rightarrow> open_block ''thinking'' acc
            | Some currentBlock \<Rightarrow>
                if type currentBlock \<noteq> ''thinking'' then open_block ''thinking'' acc
                else (acc, Inr [])) of
        (acc1, Inl e) \<Rightarrow> (acc1, Inl e)
      | (acc1, Inr evs1) \<Rightarrow>
          (case addDelta rc acc1 of
             (acc2, Inl e) \<Rightarrow> (acc2, Inl e)
           | (acc2, Inr _) \<Rightarrow>
               (case getCurrentBlock acc2 of
                  None \<Rightarrow> (acc2, Inl TypeError)
                | Some b \<Rightarrow> (acc2, Inr (evs1 @ [createThinkingDeltaEvent b rc])))))"

definition close_thinking :: "host \<Rightarrow> accumulator \<Rightarrow> accumulator \<times> anthropic_event list" where
  "close_thinking h acc =
     (case getCurrentBlock acc of
        None \<Rightarrow> (acc, [])
      | Some currentBlock \<Rightarrow>
          if type currentBlock = ''thinking'' \<and> \<not> stopped currentBlock
          then (stopCurrentBlock acc,
                [createSignatureDeltaEvent h currentBlock, createContentBlockStopEvent currentBlock])
          else (acc, []))"

definition text_section ::
  "host \<Rightarrow> string \<Rightarrow> accumulator \<Rightarrow> accumulator \<times> (error + anthropic_event list)" where
  "text_section h c acc =
     (let (acc0, evs0) = close_thinking h acc
      in case (case getCurrentBlock acc0 of
                 None \<Rightarrow> open_block ''text'' acc0
               | Some b \<Rightarrow>
                   if type b \<noteq> ''text'' then open_block ''text'' acc0 else (acc0, Inr [])) of
           (acc1, Inl e) \<Rightarrow> (acc1, Inl e)
         | (acc1, Inr evs1) \<Rightarrow>
             (case addDelta c acc1 of
                (acc2, Inl e) \<Rightarrow> (acc2, Inl e)
              | (acc2, Inr _) \<Rightarrow>
                  (case getCurrentBlock acc2 of
                     None \<Rightarrow> (acc2, Inl TypeError)
                   | Some b \<Rightarrow> (acc2, Inr (evs0 @ evs1 @ [createTextDeltaEvent b c])))))"

definition finish_section :: "chunk \<Rightarrow> choice \<Rightarrow> accumulator \<Rightarrow> accumulator" where
  "finish_section d ch acc =
     (let acc1 = updateUsage (chunk_usage d) acc
      in if truthy (c_finish_reason ch) then acc1 \<lparr> finishReason := c_finish_reason ch \<rparr> else acc1)"

definition transformDelta ::
  "host \<Rightarrow> chunk sse_event \<Rightarrow> accumulator \<Rightarrow> accumulator \<times> (error + anthropic_event list)" where
  "transformDelta h openaiEvent acc =
     (if sse_event openaiEvent = ''done''
      then (case finalizeDelta h acc of (acc1, evs) \<Rightarrow> (acc1, Inr evs))
      else
        case sse_data openaiEvent of
          None \<Rightarrow> (acc, Inr [])
        | Some d \<Rightarrow>
            (case choices d of
               [] \<Rightarrow> (acc, Inr [])
             | ch # _ \<Rightarrow>
                 (case c_delta ch of
                    None \<Rightarrow> (acc, Inr [])
                  | Some dl \<Rightarrow>
                      let (acc1, evs1) = message_start_section d acc;
                          acc2 = role_section dl acc1
                      in case (if truthy (d_reasoning_content dl)
                               then reasoning_section (the (d_reasoning_content dl)) acc2
                               else (acc2, Inr [])) of
                           (acc3, Inl e) \<Rightarrow> (acc3, Inl e)
                         | (acc3, Inr evs2) \<Rightarrow>
                             (case (if truthy (d_content dl)
                                    then text_section h (the (d_content dl)) acc3
                                    else (acc3, Inr [])) of
                                (acc4, Inl e) \<Rightarrow> (acc4, Inl e)
                              | (acc4, Inr evs3) \<Rightarrow>
                                  (finish_section d ch acc4, Inr (evs1 @ evs2 @ evs3))))))"

text \<open>
  A caller drives one stream by calling \<^verbatim>\<open>transformDelta\<close> once per upstream event, each
  call with the host as it is then (the clock moves). An exception ends the stream;
  \<open>run\<close> returns the accumulator as the exception left it.
\<close>

fun run :: "(host \<times> chunk sse_event) list \<Rightarrow> accumulator \<Rightarrow> accumulator \<times> (error + anthropic_event list)" where
  "run [] acc = (acc, Inr [])"
| "run ((h, e) # es) acc =
     (case transformDelta h e acc of
        (acc1, Inl err) \<Rightarrow> (acc1, Inl err)
      | (acc1, Inr evs) \<Rightarrow>
          (case run es acc1 of
             (acc2, Inl err) \<Rightarrow> (acc2, Inl err)
           | (acc2, Inr evs') \<Rightarrow> (acc2, Inr (evs @ evs'))))"

text \<open>A block is open when it has started and has not stopped.\<close>

definition open_blocks :: "accumulator \<Rightarrow> content_block list" where
  "open_blocks acc = filter (\<lambda>b. started b \<and> \<not> stopped b) (contentBlocks acc)"

section \<open>Frame parser (sse-parser.js)\<close>

text \<open>
  Strings are lists of 8-bit characters here, lists of UTF-16 code units in the source;
  \<open>length\<close> counts the elements in both. \<^verbatim>\<open>JSON.parse\<close> is a parameter of the parser:
  it throws a syntax error or returns a value, \<^verbatim>\<open>null\<close> being \<open>Value None\<close>.
\<close>

datatype 'j json_result = SyntaxError | Value "'j option"

record sse_parser =
  buffer :: string
  eventCount :: nat
  parser_maxBufferSize :: nat

definition SSEParser :: "nat option \<Rightarrow> sse_parser" where
  "SSEParser opt_maxBufferSize' =
     \<lparr> buffer = [], eventCount = 0,
       parser_maxBufferSize = nat_or opt_maxBufferSize' (1024 * 1024) \<rparr>"

text \<open>\<^verbatim>\<open>s.split('\n')\<close>: the pieces between line feeds, at least one piece.\<close>

fun split_nl :: "string \<Rightarrow> string list" where
  "split_nl [] = [[]]"
| "split_nl (c # cs) =
     (if c = CHR 0x0A then [] # split_nl cs
      else (case split_nl cs of
              [] \<Rightarrow> [[c]]
            | l # ls \<Rightarrow> (c # l) # ls))"

definition startsWith :: "string \<Rightarrow> string \<Rightarrow> bool" where
  "startsWith p s = (take (length p) s = p)"

text \<open>
  The white space that \<^verbatim>\<open>trim\<close> and \<^verbatim>\<open>parseInt\<close> skip, as far as it lies in the 8-bit
  range: tab, line feed, vertical tab, form feed, carriage return, space, no-break space.
\<close>

definition js_whitespace :: "char \<Rightarrow> bool" where
  "js_whitespace c =
     (c = CHR 0x09 \<or> c = CHR 0x0A \<or> c = CHR 0x0B \<or> c = CHR 0x0C \<or> c = CHR 0x0D \<or>
      c = CHR 0x20 \<or> c = CHR 0xA0)"

definition trim :: "string \<Rightarrow> string" where
  "trim s = rev (dropWhile js_whitespace (rev (dropWhile js_whitespace s)))"

definition is_digit :: "char \<Rightarrow> bool" where
  "is_digit c = (48 \<le> (of_char c :: nat) \<and> (of_char c :: nat) \<le> 57)"

fun digits_value :: "string \<Rightarrow> nat \<Rightarrow> nat" where
  "digits_value [] n = n"
| "digits_value (c # cs) n = digits_value cs (10 * n + (of_char c - 48))"

text \<open>
  \<^verbatim>\<open>parseInt(s, 10)\<close>: leading white space, an optional sign, the longest run of decimal
  digits; \<^verbatim>\<open>NaN\<close> when there is no digit. The value is exact here; the source rounds
  it to a double, which differs above two to the power 53.
\<close>

definition parseInt :: "string \<Rightarrow> js_number" where
  "parseInt s =
     (let t = dropWhile js_whitespace s;
          neg = (case t of [] \<Rightarrow> False | c # _ \<Rightarrow> c = CHR ''-'');
          u = (case t of [] \<Rightarrow> [] | c # r \<Rightarrow> if c = CHR ''-'' \<or> c = CHR ''+'' then r else t);
          ds = takeWhile is_digit u
      in if ds = [] then NaN
         else Num (if neg then - int (digits_value ds 0) else int (digits_value ds 0)))"

text \<open>
  The event under construction in the loop of \<^verbatim>\<open>parse\<close>: its name and the optional
  \<^verbatim>\<open>id\<close> and \<^verbatim>\<open>retry\<close> fields. Its \<^verbatim>\<open>data\<close> and \<^verbatim>\<open>index\<close> are set when it is pushed.
\<close>

record current_event =
  cur_event :: string
  cur_id :: "string option"
  cur_retry :: "js_number option"

definition new_current_event :: current_event where
  "new_current_event = \<lparr> cur_event = ''message'', cur_id = None, cur_retry = None \<rparr>"

text \<open>
  The loop over the complete lines, with the event counter and the event under
  construction as its state; it returns the counter and the events pushed. A data line
  whose payload does not parse is logged and skipped: the counter and the event under
  construction stay.
\<close>

fun parse_lines ::
  "(string \<Rightarrow> 'j json_result) \<Rightarrow> string list \<Rightarrow> nat \<Rightarrow> current_event \<Rightarrow> nat \<times> 'j sse_event list" where
  "parse_lines json [] n cur = (n, [])"
| "parse_lines json (line # lines) n cur =
     (if startsWith ''event: '' line
      then parse_lines json lines n (cur \<lparr> cur_event := trim (drop 7 line) \<rparr>)
      else if startsWith ''data: '' line then
        (if drop 6 line = ''[DONE]''
         then (case parse_lines json lines (n + 1) new_current_event of
                 (m, evs) \<Rightarrow>
                   (m, \<lparr> sse_event = ''done'', sse_data = None, sse_index = n + 1,
                         sse_id = None, sse_retry = None \<rparr> # evs))
         else (case json (drop 6 line) of
                 SyntaxError \<Rightarrow> parse_lines json lines n cur
               | Value v \<Rightarrow>
                   (case parse_lines json lines (n + 1) new_current_event of
                      (m, evs) \<Rightarrow>
                        (m, \<lparr> sse_event = cur_event cur, sse_data = v, sse_index = n + 1,
                              sse_id = cur_id cur, sse_retry = cur_retry cur \<rparr> # evs))))
      else if startsWith ''id: '' line
      then parse_lines json lines n (cur \<lparr> cur_id := Some (trim (drop 4 line)) \<rparr>)
      else if startsWith ''retry: '' line
      then parse_lines json lines n (cur \<lparr> cur_retry := Some (parseInt (drop 7 line)) \<rparr>)
      else parse_lines json lines n cur)"

text \<open>
  \<^verbatim>\<open>parse\<close> appends the chunk to the buffer before it checks the size, so the buffer
  keeps the chunk when the check throws.
\<close>

definition parse ::
  "(string \<Rightarrow> 'j json_result) \<Rightarrow> string \<Rightarrow> sse_parser \<Rightarrow> sse_parser \<times> (error + 'j sse_event list)" where
  "parse json chunk p =
     (let buf = buffer p @ chunk
      in if parser_maxBufferSize p < length buf
         then (p \<lparr> buffer := buf \<rparr>, Inl (SSEBufferExceeded (parser_maxBufferSize p)))
         else
           let lines = split_nl buf;
               (n, events) = parse_lines json (butlast lines) (eventCount p) new_current_event
           in (p \<lparr> buffer := last lines, eventCount := n \<rparr>, Inr events))"

definition reset :: "sse_parser \<Rightarrow> sse_parser" where
  "reset p = p \<lparr> buffer := [], eventCount := 0 \<rparr>"

text \<open>
  Successive calls of \<^verbatim>\<open>parse\<close> on one parser, one per chunk, each in a \<^verbatim>\<open>try\<close>: the
  parser after the last call and the result of every call.
\<close>

fun parse_all ::
  "(string \<Rightarrow> 'j json_result) \<Rightarrow> string list \<Rightarrow> sse_parser \<Rightarrow>
     sse_parser \<times> (error + 'j sse_event list) list" where
  "parse_all json [] p = (p, [])"
| "parse_all json (chunk # chunks) p =
     (case parse json chunk p of
        (p1, r) \<Rightarrow> (case parse_all json chunks p1 of (p2, rs) \<Rightarrow> (p2, r # rs)))"

section \<open>Buffered request transformer (glmt-transformer.js)\<close>

subsection \<open>Values\<close>

text \<open>
  A request is whatever the caller passes: a JavaScript value as \<^verbatim>\<open>JSON.parse\<close> builds
  them, and \<^verbatim>\<open>undefined\<close>. An object is the list of its own properties; on a repeated
  key the first entry counts.
\<close>

datatype js =
    JUndefined
  | JNull
  | JBool bool
  | JNumber real
  | JString string
  | JArray "js list"
  | JObject "(string \<times> js) list"

fun js_truthy :: "js \<Rightarrow> bool" where
  "js_truthy JUndefined = False"
| "js_truthy JNull = False"
| "js_truthy (JBool b) = b"
| "js_truthy (JNumber r) = (r \<noteq> 0)"
| "js_truthy (JString s) = (s \<noteq> [])"
| "js_truthy (JArray xs) = True"
| "js_truthy (JObject kvs) = True"

text \<open>
  The property read \<^verbatim>\<open>x.p\<close> for the property names the transformer uses (messages,
  model, stream, temperature, top_p, role, content, type, text), none of which a string,
  a number, a boolean or an array has: it throws on \<^verbatim>\<open>null\<close> and \<^verbatim>\<open>undefined\<close>, looks
  the name up in an object, and is \<^verbatim>\<open>undefined\<close> on everything else.
\<close>

fun get_prop :: "js \<Rightarrow> string \<Rightarrow> error + js" where
  "get_prop JUndefined p = Inl TypeError"
| "get_prop JNull p = Inl TypeError"
| "get_prop (JObject kvs) p = Inr (case map_of kvs p of None \<Rightarrow> JUndefined | Some v \<Rightarrow> v)"
| "get_prop v p = Inr JUndefined"

text \<open>The assignment \<^verbatim>\<open>o.p = v\<close> on the properties of an object under construction.\<close>

fun set_prop :: "(string \<times> js) list \<Rightarrow> string \<Rightarrow> js \<Rightarrow> (string \<times> js) list" where
  "set_prop [] p v = [(p, v)]"
| "set_prop ((q, w) # kvs) p v = (if q = p then (q, v) # kvs else (q, w) # set_prop kvs p v)"

subsection \<open>Control tags\<close>

text \<open>\<^verbatim>\<open>toLowerCase\<close> on the letters A to Z; the pattern has no other letters.\<close>

definition lower_char :: "char \<Rightarrow> char" where
  "lower_char c =
     (case map_of (zip ''ABCDEFGHIJKLMNOPQRSTUVWXYZ'' ''abcdefghijklmnopqrstuvwxyz'') c of
        None \<Rightarrow> c
      | Some l \<Rightarrow> l)"

definition toLowerCase :: "string \<Rightarrow> string" where
  "toLowerCase s = map lower_char s"

text \<open>
  \<^verbatim>\<open>content.match(/<Tag:(A|B|...)>/i)\<close>: the text of the capture group of the leftmost
  match. \<open>tag\<close> is the opening of the pattern and \<open>alts\<close> are the alternatives, both in
  lower case.
\<close>

fun match_tag :: "string \<Rightarrow> string list \<Rightarrow> string \<Rightarrow> string option" where
  "match_tag tag alts [] = None"
| "match_tag tag alts (c # cs) =
     (case find (\<lambda>a. startsWith (tag @ a @ ''>'') (toLowerCase (c # cs))) alts of
        Some a \<Rightarrow> Some (take (length a) (drop (length tag) (c # cs)))
      | None \<Rightarrow> match_tag tag alts cs)"

record thinking_config =
  thinking :: bool
  effort :: "string option"

text \<open>
  The values a \<^verbatim>\<open>for ... of\<close> loop visits: the elements of an array, the characters of a
  string; nothing else that a request can hold is iterable.
\<close>

fun iterate :: "js \<Rightarrow> error + js list" where
  "iterate (JArray xs) = Inr xs"
| "iterate (JString s) = Inr (map (\<lambda>c. JString [c]) s)"
| "iterate v = Inl TypeError"

fun extract_loop :: "js list \<Rightarrow> thinking_config \<Rightarrow> error + thinking_config" where
  "extract_loop [] config = Inr config"
| "extract_loop (msg # msgs) config =
     (case get_prop msg ''role'' of
        Inl e \<Rightarrow> Inl e
      | Inr r \<Rightarrow>
          if r \<noteq> JString ''user'' then extract_loop msgs config
          else
            (case get_prop msg ''content'' of
               Inl e \<Rightarrow> Inl e
             | Inr (JString s) \<Rightarrow>
                 let config1 =
                       (case match_tag ''<thinking:'' [''on'', ''off''] s of
                          None \<Rightarrow> config
                        | Some m \<Rightarrow> config \<lparr> thinking := (toLowerCase m = ''on'') \<rparr>);
                     config2 =
                       (case match_tag ''<effort:'' [''low'', ''medium'', ''high''] s of
                          None \<Rightarrow> config1
                        | Some m \<Rightarrow> config1 \<lparr> effort := Some (toLowerCase m) \<rparr>)
                 in extract_loop msgs config2
             | Inr _ \<Rightarrow> extract_loop msgs config))"

definition extractThinkingControl :: "bool \<Rightarrow> js \<Rightarrow> error + thinking_config" where
  "extractThinkingControl defaultThinking messages =
     (case iterate messages of
        Inl e \<Rightarrow> Inl e
      | Inr msgs \<Rightarrow> extract_loop msgs \<lparr> thinking = defaultThinking, effort = Some ''medium'' \<rparr>)"

subsection \<open>Messages\<close>

text \<open>\<^verbatim>\<open>content.filter(block => block.type === 'text')\<close>, which reads every block.\<close>

fun filter_text :: "js list \<Rightarrow> error + js list" where
  "filter_text [] = Inr []"
| "filter_text (block # blocks) =
     (case get_prop block ''type'' of
        Inl e \<Rightarrow> Inl e
      | Inr t \<Rightarrow>
          (case filter_text blocks of
             Inl e \<Rightarrow> Inl e
           | Inr rest \<Rightarrow> Inr (if t = JString ''text'' then block # rest else rest)))"

text \<open>The callback of \<^verbatim>\<open>messages.map\<close> in \<^verbatim>\<open>_sanitizeMessages\<close>.\<close>

definition sanitizeMessage :: "js \<Rightarrow> error + js" where
  "sanitizeMessage msg =
     (case get_prop msg ''content'' of
        Inl e \<Rightarrow> Inl e
      | Inr (JString s) \<Rightarrow> Inr msg
      | Inr (JArray blocks) \<Rightarrow>
          (case filter_text blocks of
             Inl e \<Rightarrow> Inl e
           | Inr sanitizedContent \<Rightarrow>
               (case get_prop msg ''role'' of
                  Inl e \<Rightarrow> Inl e
                | Inr r \<Rightarrow>
                    (case sanitizedContent of
                       [] \<Rightarrow> Inr (JObject [(''role'', r), (''content'', JString [])])
                     | [block] \<Rightarrow>
                         (case get_prop block ''text'' of
                            Inl e \<Rightarrow> Inl e
                          | Inr t \<Rightarrow> Inr (JObject [(''role'', r), (''content'', t)]))
                     | _ \<Rightarrow> Inr (JObject [(''role'', r), (''content'', JArray sanitizedContent)]))))
      | Inr _ \<Rightarrow> Inr msg)"

fun sanitize_all :: "js list \<Rightarrow> error + js list" where
  "sanitize_all [] = Inr []"
| "sanitize_all (msg # msgs) =
     (case sanitizeMessage msg of
        Inl e \<Rightarrow> Inl e
      | Inr m \<Rightarrow> (case sanitize_all msgs of Inl e \<Rightarrow> Inl e | Inr ms \<Rightarrow> Inr (m # ms)))"

text \<open>Only an array has a \<^verbatim>\<open>map\<close> method.\<close>

definition sanitizeMessages :: "js \<Rightarrow> error + js" where
  "sanitizeMessages messages =
     (case messages of
        JArray msgs \<Rightarrow> (case sanitize_all msgs of Inl e \<Rightarrow> Inl e | Inr ms \<Rightarrow> Inr (JArray ms))
      | _ \<Rightarrow> Inl TypeError)"

subsection \<open>transformRequest\<close>

definition mapModel :: "js \<Rightarrow> string" where
  "mapModel anthropicModel = ''GLM-4.6''"

definition getMaxTokens :: "string \<Rightarrow> real" where
  "getMaxTokens m =
     (if m = ''GLM-4.6'' then 128000
      else if m = ''GLM-4.5'' then 96000
      else if m = ''GLM-4.5-air'' then 16000
      else 128000)"

definition injectReasoningParams :: "(string \<times> js) list \<Rightarrow> thinking_config \<Rightarrow> (string \<times> js) list" where
  "injectReasoningParams openaiRequest' thinkingConfig' =
     (let r1 = set_prop openaiRequest' ''do_sample'' (JBool True)
      in if thinking thinkingConfig'
         then set_prop (set_prop r1 ''reasoning'' (JBool True)) ''reasoning_effort''
                (case effort thinkingConfig' of None \<Rightarrow> JUndefined | Some e \<Rightarrow> JString e)
         else r1)"

text \<open>
  The body of the \<^verbatim>\<open>try\<close> block: the translated request and the directive
  configuration, or the exception that leaves the block. Writing the debug log changes
  neither and has its own \<^verbatim>\<open>try\<close>.
\<close>

definition transformRequest_try :: "bool \<Rightarrow> js \<Rightarrow> error + (js \<times> thinking_config)" where
  "transformRequest_try defaultThinking anthropicRequest =
     (case get_prop anthropicRequest ''messages'' of
        Inl e \<Rightarrow> Inl e
      | Inr m \<Rightarrow>
          let messages = (if js_truthy m then m else JArray [])
          in case extractThinkingControl defaultThinking messages of
               Inl e \<Rightarrow> Inl e
             | Inr config \<Rightarrow>
                 (case get_prop anthropicRequest ''model'' of
                    Inl e \<Rightarrow> Inl e
                  | Inr am \<Rightarrow>
                      let glmModel = mapModel am
                      in case sanitizeMessages messages of
                           Inl e \<Rightarrow> Inl e
                         | Inr msgs \<Rightarrow>
                             (case (get_prop anthropicRequest ''stream'',
                                    get_prop anthropicRequest ''temperature'',
                                    get_prop anthropicRequest ''top_p'') of
                                (Inr stream, Inr temperature, Inr top_p) \<Rightarrow>
                                  let r0 = [(''model'', JString glmModel), (''messages'', msgs),
                                            (''max_tokens'', JNumber (getMaxTokens glmModel)),
                                            (''stream'', if stream = JUndefined \<or> stream = JNull
                                                         then JBool False else stream)];
                                      r1 = (if temperature \<noteq> JUndefined
                                            then set_prop r0 ''temperature'' temperature else r0);
                                      r2 = (if top_p \<noteq> JUndefined
                                            then set_prop r1 ''top_p'' top_p else r1);
                                      r3 = (if stream \<noteq> JUndefined
                                            then set_prop r2 ''stream'' stream else r2)
                                  in Inr (JObject (injectReasoningParams r3 config), config)
                              | _ \<Rightarrow> Inl TypeError)))"

record transform_result =
  openaiRequest :: js
  thinkingConfig :: thinking_config
  error :: "error option"

text \<open>
  \<^verbatim>\<open>transformRequest\<close>: what the \<^verbatim>\<open>try\<close> block returns, or the object the \<^verbatim>\<open>catch\<close>
  block builds from the original request. The configured default for thinking is a
  parameter.
\<close>

definition transformRequest :: "bool \<Rightarrow> js \<Rightarrow> transform_result" where
  "transformRequest defaultThinking anthropicRequest =
     (case transformRequest_try defaultThinking anthropicRequest of
        Inr (request, config) \<Rightarrow>
          \<lparr> openaiRequest = request, thinkingConfig = config, error = None \<rparr>
      | Inl e \<Rightarrow>
          \<lparr> openaiRequest = anthropicRequest,
            thinkingConfig = \<lparr> thinking = False, effort = None \<rparr>,
            error = Some e \<rparr>)"

section \<open>Inputs, drivers and state predicates of the statements\<close>

definition default_options :: accumulator_options where
  "default_options = \<lparr> opt_maxBlocks = None, opt_maxBufferSize = None \<rparr>"

text \<open>
  An upstream event with one choice whose delta carries the given reasoning text, answer
  text and finish reason, and the event of the completion sentinel.
\<close>

definition delta_event ::
  "nat \<Rightarrow> string option \<Rightarrow> string option \<Rightarrow> string option \<Rightarrow> chunk sse_event" where
  "delta_event i rc c fr =
     \<lparr> sse_event = ''message'',
       sse_data = Some \<lparr> choices = [\<lparr> c_delta = Some \<lparr> d_role = None, d_reasoning_content = rc,
                                                       d_content = c, d_tool_calls = [] \<rparr>,
                                       c_finish_reason = fr \<rparr>],
                         chunk_model = None, chunk_usage = None \<rparr>,
       sse_index = i, sse_id = None, sse_retry = None \<rparr>"

definition done_event :: "nat \<Rightarrow> chunk sse_event" where
  "done_event i =
     \<lparr> sse_event = ''done'', sse_data = None, sse_index = i, sse_id = None, sse_retry = None \<rparr>"

definition scenario_A :: "host \<Rightarrow> host \<Rightarrow> host \<Rightarrow> host \<Rightarrow> (host \<times> chunk sse_event) list" where
  "scenario_A h1 h2 h3 h4 =
     [(h1, delta_event 1 (Some ''Let me think'') None None),
      (h2, delta_event 2 None (Some ''42'') None),
      (h3, delta_event 3 None None (Some ''stop'')),
      (h4, done_event 4)]"

text \<open>Answer text first, reasoning text second.\<close>

definition text_then_reasoning :: "host \<Rightarrow> host \<Rightarrow> (host \<times> chunk sse_event) list" where
  "text_then_reasoning h1 h2 =
     [(h1, delta_event 1 None (Some ''a'') None),
      (h2, delta_event 2 (Some ''b'') None None)]"

text \<open>
  \<^verbatim>\<open>startBlock\<close> called once per element of a list of block types, each call in a
  \<^verbatim>\<open>try\<close>: the results in call order and the accumulator after the last call.
\<close>

fun call_startBlock :: "string list \<Rightarrow> accumulator \<Rightarrow> accumulator \<times> (error + content_block) list" where
  "call_startBlock [] acc = (acc, [])"
| "call_startBlock (ty # tys) acc =
     (case startBlock ty acc of
        (acc1, r) \<Rightarrow> (case call_startBlock tys acc1 of (acc2, rs) \<Rightarrow> (acc2, r # rs)))"

text \<open>
  The accumulator's two redundant pieces of state agree: the open-index is the position
  of the last block, and the working buffer of the current block's type is that block's
  content.
\<close>

definition consistent :: "accumulator \<Rightarrow> bool" where
  "consistent acc =
     (currentBlockIndex acc + 1 = int (length (contentBlocks acc)) \<and>
      (case getCurrentBlock acc of
         None \<Rightarrow> True
       | Some b \<Rightarrow>
           if type b = ''thinking'' then content b = thinkingBuffer acc
           else if type b = ''text'' then content b = textBuffer acc
           else True))"

text \<open>A host for closed examples.\<close>

definition host0 :: host where
  "host0 = \<lparr> sha256_hex = (\<lambda>s. replicate 64 (CHR ''0'')), now = 0 \<rparr>"

text \<open>
  An accumulator whose per-block limit is one character, before and after
  \<^verbatim>\<open>startBlock('tool_use')\<close> and \<^verbatim>\<open>startBlock('thinking')\<close>.
\<close>

definition small_buffer_acc :: accumulator where
  "small_buffer_acc = DeltaAccumulator ''m'' \<lparr> opt_maxBlocks = None, opt_maxBufferSize = Some 1 \<rparr>"

definition tool_use_acc :: accumulator where
  "tool_use_acc = fst (startBlock ''tool_use'' small_buffer_acc)"

definition thinking_acc :: accumulator where
  "thinking_acc = fst (startBlock ''thinking'' small_buffer_acc)"

text \<open>
  An upstream event that carries usage and no choice, as the last chunk of a stream does
  when the upstream reports usage apart from content:
  \<^verbatim>\<open>{choices: [], usage: {prompt_tokens: 3, completion_tokens: 5}}\<close>; and one whose first
  choice has an empty delta and the same usage under the other naming.
\<close>

definition usage_only_event :: "chunk sse_event" where
  "usage_only_event =
     \<lparr> sse_event = ''message'',
       sse_data = Some \<lparr> choices = [], chunk_model = None,
                         chunk_usage = Some \<lparr> prompt_tokens = Some 3, input_tokens = None,
                                               completion_tokens = Some 5, output_tokens = None \<rparr> \<rparr>,
       sse_index = 1, sse_id = None, sse_retry = None \<rparr>"

definition usage_event :: "chunk sse_event" where
  "usage_event =
     \<lparr> sse_event = ''message'',
       sse_data = Some \<lparr> choices = [\<lparr> c_delta = Some \<lparr> d_role = None, d_reasoning_content = None,
                                                       d_content = None, d_tool_calls = [] \<rparr>,
                                       c_finish_reason = Some ''stop'' \<rparr>],
                         chunk_model = None,
                         chunk_usage = Some \<lparr> prompt_tokens = None, input_tokens = Some 3,
                                               completion_tokens = None, output_tokens = Some 5 \<rparr> \<rparr>,
       sse_index = 1, sse_id = None, sse_retry = None \<rparr>"

text \<open>
  Two fragments of the tool call with index 0, and an upstream event that carries the
  first.
\<close>

definition fragment1 :: tool_call_delta where
  "fragment1 =
     \<lparr> tcd_index = 0, tcd_id = Some ''call_'', tcd_type = Some ''function'',
       tcd_function = Some \<lparr> fd_name = Some ''get_'', fd_arguments = Some ''{\"q\":'' \<rparr> \<rparr>"

definition fragment2 :: tool_call_delta where
  "fragment2 =
     \<lparr> tcd_index = 0, tcd_id = Some ''1'', tcd_type = None,
       tcd_function = Some \<lparr> fd_name = Some ''time'', fd_arguments = Some ''1}'' \<rparr> \<rparr>"

definition tool_call_event :: "chunk sse_event" where
  "tool_call_event =
     \<lparr> sse_event = ''message'',
       sse_data = Some \<lparr> choices = [\<lparr> c_delta = Some \<lparr> d_role = None, d_reasoning_content = None,
                                                       d_content = None, d_tool_calls = [fragment1] \<rparr>,
                                       c_finish_reason = None \<rparr>],
                         chunk_model = None, chunk_usage = None \<rparr>,
       sse_index = 1, sse_id = None, sse_retry = None \<rparr>"

text \<open>The same upstream event with the tool-call fragments of every delta removed.\<close>

definition strip_tool_calls :: "chunk sse_event \<Rightarrow> chunk sse_event" where
  "strip_tool_calls ev =
     ev \<lparr> sse_data :=
            map_option
              (\<lambda>d. d \<lparr> choices :=
                         map (\<lambda>ch. ch \<lparr> c_delta := map_option (\<lambda>dl. dl \<lparr> d_tool_calls := [] \<rparr>) (c_delta ch) \<rparr>)
                           (choices d) \<rparr>)
              (sse_data ev) \<rparr>"

text \<open>
  What the sections of \<^verbatim>\<open>transformDelta\<close> that handle content leave alone: the tool-call
  entries, the flag \<open>finalized\<close> and the usage counters.
\<close>

definition same_bookkeeping :: "accumulator \<Rightarrow> accumulator \<Rightarrow> bool" where
  "same_bookkeeping acc acc' =
     (toolCalls acc' = toolCalls acc \<and> toolCallsIndex acc' = toolCallsIndex acc \<and>
      finalized acc' = finalized acc \<and> inputTokens acc' = inputTokens acc \<and>
      outputTokens acc' = outputTokens acc)"


text \<open>No event of the list is a \<^verbatim>\<open>message_delta\<close>.\<close>

definition no_message_delta :: "anthropic_event list \<Rightarrow> bool" where
  "no_message_delta evs = list_all (\<lambda>e. event e \<noteq> ''message_delta'') evs"


text \<open>
  The two chunks of the partial frame, and a stand-in for \<^verbatim>\<open>JSON.parse\<close> that knows the
  one payload: it returns the object \<^verbatim>\<open>{a: 1}\<close> on its text and throws on anything else.
\<close>

definition chunk1 :: string where
  "chunk1 = ''data: {\"a\":1''"

definition chunk2 :: string where
  "chunk2 = ''}'' @ [CHR 0x0A, CHR 0x0A]"

definition json_a1 :: "string \<Rightarrow> js json_result" where
  "json_a1 s =
     (if s = ''{\"a\":1}'' then Value (Some (JObject [(''a'', JNumber 1)])) else SyntaxError)"

text \<open>A parser with a limit of 8 characters, and a chunk of one complete frame.\<close>

definition small_parser :: sse_parser where
  "small_parser = SSEParser (Some 8)"

definition complete_frame :: string where
  "complete_frame = ''data: {\"a\":1}'' @ [CHR 0x0A, CHR 0x0A]"

text \<open>
  Three requests on which the transformation fails: \<^verbatim>\<open>{messages: 5}\<close> (the loop of the
  directive extraction cannot iterate a number), \<^verbatim>\<open>{messages: [{role: "user", content:
  [null]}]}\<close> (the filter of the sanitization reads the type of \<^verbatim>\<open>null\<close>) and \<^verbatim>\<open>null\<close>.
\<close>

definition request_messages_number :: js where
  "request_messages_number = JObject [(''messages'', JNumber 5)]"

definition request_null_block :: js where
  "request_null_block =
     JObject [(''model'', JString ''claude''),
              (''messages'', JArray [JObject [(''role'', JString ''user''),
                                              (''content'', JArray [JNull])]])]"

text \<open>A request that is transformed: one user message with both control tags.\<close>

definition request_tags :: js where
  "request_tags =
     JObject [(''model'', JString ''claude''),
              (''messages'', JArray [JObject [(''role'', JString ''user''),
                                              (''content'', JString ''<Thinking:Off> <effort:HIGH> hi'')]]),
              (''temperature'', JNumber (1 / 2))]"

text \<open>\<^verbatim>\<open>null\<close> or \<^verbatim>\<open>undefined\<close>.\<close>

definition nullish :: "js \<Rightarrow> bool" where
  "nullish v = (v = JUndefined \<or> v = JNull)"

text \<open>
  The tool-call entries are indexed: \<open>toolCallsIndex\<close> sends a call index to the position
  of an entry of \<open>toolCalls\<close> that carries this index, every entry is found under its
  index, and no two entries carry the same index.
\<close>

definition tool_calls_indexed :: "accumulator \<Rightarrow> bool" where
  "tool_calls_indexed acc =
     (list_all (\<lambda>(i, p). p < length (toolCalls acc) \<and> tc_index (toolCalls acc ! p) = i)
        (toolCallsIndex acc) \<and>
      list_all (\<lambda>t. map_of (toolCallsIndex acc) (tc_index t) \<noteq> None) (toolCalls acc) \<and>
      distinct (map tc_index (toolCalls acc)))"

section \<open>Properties of the accumulator and of the streaming transformer\<close>

lemmas stream_defs =
  transformDelta_def finalizeDelta_def message_start_section_def role_section_def
  reasoning_section_def text_section_def close_thinking_def finish_section_def open_block_def
  startBlock_def addDelta_def stopCurrentBlock_def getCurrentBlock_def updateUsage_def
  createMessageStartEvent_def createContentBlockStartEvent_def createThinkingDeltaEvent_def
  createTextDeltaEvent_def createSignatureDeltaEvent_def createContentBlockStopEvent_def
  generateThinkingSignature_def mapStopReason_def

lemmas input_defs = default_options_def delta_event_def done_event_def DeltaAccumulator_def

subsection \<open>Open blocks\<close>

text \<open>
  C1. The claim is that at most one block of the accumulator is open at any point of a
  stream, whatever the order of reasoning and answer deltas. The code closes the open
  thinking block when answer text arrives, but it does not close the open text block when
  reasoning text arrives: after an answer delta followed by a reasoning delta the text
  block 0 and the thinking block 1 are both started and not stopped. Finalize then stops
  the current block only, so the stream that closes with the sentinel carries no
  content_block_stop for block 0.
\<close>

theorem text_then_reasoning_open_blocks:
  "open_blocks (fst (run (text_then_reasoning h1 h2) (DeltaAccumulator mid default_options))) =
     [\<lparr> index = 0, type = ''text'', content = ''a'', started = True, stopped = False \<rparr>,
      \<lparr> index = 1, type = ''thinking'', content = ''b'', started = True, stopped = False \<rparr>] \<and>
   snd (run (text_then_reasoning h1 h2 @ [(h3, done_event 3)])
          (DeltaAccumulator mid default_options)) =
     Inr [\<lparr> event = ''message_start'',
            data = message_start \<lparr> m_id = mid, m_type = ''message'', m_role = ''assistant'',
                     m_model = ''glm-4.6'', m_input_tokens = 0, m_output_tokens = 0 \<rparr> \<rparr>,
          \<lparr> event = ''content_block_start'', data = content_block_start 0 ''text'' \<rparr>,
          \<lparr> event = ''content_block_delta'', data = content_block_delta 0 (text_delta ''a'') \<rparr>,
          \<lparr> event = ''content_block_start'', data = content_block_start 1 ''thinking'' \<rparr>,
          \<lparr> event = ''content_block_delta'', data = content_block_delta 1 (thinking_delta ''b'') \<rparr>,
          \<lparr> event = ''signature_delta'',
            data = signature_delta 1
                     \<lparr> sig_type = ''thinking_signature'', hash = take 16 (sha256_hex h3 ''b''),
                       sig_length = 1, timestamp = now h3 \<rparr> \<rparr>,
          \<lparr> event = ''content_block_stop'', data = content_block_stop 1 \<rparr>,
          \<lparr> event = ''message_delta'', data = message_delta ''end_turn'' 0 \<rparr>,
          \<lparr> event = ''message_stop'', data = message_stop \<rparr>]"
  by (simp add: text_then_reasoning_def input_defs stream_defs open_blocks_def Let_def)

subsection \<open>Scenario A\<close>

text \<open>
  C2. A fresh accumulator with the default limits is fed a reasoning delta
  "Let me think", an answer delta "42", a delta with finish reason "stop" and the
  completion sentinel. The events returned, in order, are message_start,
  content_block_start (thinking), content_block_delta (thinking), signature_delta,
  content_block_stop, content_block_start (text), content_block_delta (text),
  content_block_stop, message_delta with stop reason end_turn, message_stop; the
  signature is computed over "Let me think" when the answer delta arrives.
\<close>

theorem scenario_A_events:
  "snd (run (scenario_A h1 h2 h3 h4) (DeltaAccumulator mid default_options)) =
     Inr [\<lparr> event = ''message_start'',
            data = message_start \<lparr> m_id = mid, m_type = ''message'', m_role = ''assistant'',
                     m_model = ''glm-4.6'', m_input_tokens = 0, m_output_tokens = 0 \<rparr> \<rparr>,
          \<lparr> event = ''content_block_start'', data = content_block_start 0 ''thinking'' \<rparr>,
          \<lparr> event = ''content_block_delta'',
            data = content_block_delta 0 (thinking_delta ''Let me think'') \<rparr>,
          \<lparr> event = ''signature_delta'',
            data = signature_delta 0
                     \<lparr> sig_type = ''thinking_signature'',
                       hash = take 16 (sha256_hex h2 ''Let me think''),
                       sig_length = 12, timestamp = now h2 \<rparr> \<rparr>,
          \<lparr> event = ''content_block_stop'', data = content_block_stop 0 \<rparr>,
          \<lparr> event = ''content_block_start'', data = content_block_start 1 ''text'' \<rparr>,
          \<lparr> event = ''content_block_delta'', data = content_block_delta 1 (text_delta ''42'') \<rparr>,
          \<lparr> event = ''content_block_stop'', data = content_block_stop 1 \<rparr>,
          \<lparr> event = ''message_delta'', data = message_delta ''end_turn'' 0 \<rparr>,
          \<lparr> event = ''message_stop'', data = message_stop \<rparr>]"
  by (simp add: scenario_A_def input_defs stream_defs Let_def)

subsection \<open>Finalize\<close>

text \<open>
  C4. Whatever the accumulator, after one call of finalizeDelta the flag finalized is
  set, and a second call returns no event and the accumulator as the first call left it.
\<close>

theorem finalizeDelta_idempotent:
  "finalized (fst (finalizeDelta h acc)) \<and>
   finalizeDelta h' (fst (finalizeDelta h acc)) = (fst (finalizeDelta h acc), [])"
  by (simp add: finalizeDelta_def split: prod.splits option.splits)

subsection \<open>The limit on the number of blocks\<close>

lemma startBlock_raises:
  "maxBlocks acc \<le> length (contentBlocks acc) \<Longrightarrow>
     startBlock ty acc = (acc, Inl (MaxBlocksExceeded (maxBlocks acc)))"
  by (simp add: startBlock_def)

lemma startBlock_appends:
  assumes "length (contentBlocks acc) < maxBlocks acc"
  shows "\<exists>acc'. startBlock ty acc =
            (acc', Inr \<lparr> index = currentBlockIndex acc + 1, type = ty, content = [],
                          started = True, stopped = False \<rparr>) \<and>
          contentBlocks acc' = contentBlocks acc @
            [\<lparr> index = currentBlockIndex acc + 1, type = ty, content = [],
               started = True, stopped = False \<rparr>] \<and>
          currentBlockIndex acc' = currentBlockIndex acc + 1 \<and>
          maxBlocks acc' = maxBlocks acc"
  using assms by (simp add: startBlock_def Let_def)

lemma call_startBlock_below_limit:
  "length (contentBlocks acc) + length tys \<le> maxBlocks acc \<Longrightarrow>
   call_startBlock tys acc = (acc', rs) \<Longrightarrow>
     list_all (\<lambda>r. \<not> isl r) rs \<and> length rs = length tys \<and>
     length (contentBlocks acc') = length (contentBlocks acc) + length tys \<and>
     maxBlocks acc' = maxBlocks acc"
proof (induction tys arbitrary: acc acc' rs)
  case Nil
  then show ?case by simp
next
  case (Cons ty tys)
  from Cons.prems(1) have lt: "length (contentBlocks acc) < maxBlocks acc" by simp
  from startBlock_appends [OF lt, of ty] obtain acc1 b where
    sb: "startBlock ty acc = (acc1, Inr b)" and
    len: "contentBlocks acc1 = contentBlocks acc @ [b]" and
    mb: "maxBlocks acc1 = maxBlocks acc"
    by blast
  obtain acc2 rs2 where rest: "call_startBlock tys acc1 = (acc2, rs2)"
    by (cases "call_startBlock tys acc1")
  from Cons.prems(2) sb rest have eqs: "acc' = acc2" "rs = Inr b # rs2" by simp_all
  from Cons.prems(1) len mb have "length (contentBlocks acc1) + length tys \<le> maxBlocks acc1"
    by simp
  from Cons.IH [OF this rest] len mb eqs show ?case by simp
qed

text \<open>
  C7. startBlock raises the block-count error, and changes nothing, when the number of
  recorded blocks has reached maxBlocks; below the limit it appends the new block (its
  index one above the old open-index, started, not stopped, empty) and advances the
  open-index by one. With maxBlocks = 100, after 100 calls on a fresh accumulator (none
  of which raises) the accumulator holds 100 blocks, and the 101st call raises and leaves
  the 100 blocks.
\<close>

theorem startBlock_limit:
  "(maxBlocks acc \<le> length (contentBlocks acc) \<longrightarrow>
      startBlock ty acc = (acc, Inl (MaxBlocksExceeded (maxBlocks acc)))) \<and>
   (length (contentBlocks acc) < maxBlocks acc \<longrightarrow>
      (\<exists>acc'. startBlock ty acc =
            (acc', Inr \<lparr> index = currentBlockIndex acc + 1, type = ty, content = [],
                          started = True, stopped = False \<rparr>) \<and>
          contentBlocks acc' = contentBlocks acc @
            [\<lparr> index = currentBlockIndex acc + 1, type = ty, content = [],
               started = True, stopped = False \<rparr>] \<and>
          currentBlockIndex acc' = currentBlockIndex acc + 1)) \<and>
   (length tys = 100 \<longrightarrow>
      (case call_startBlock tys
              (DeltaAccumulator mid \<lparr> opt_maxBlocks = Some 100, opt_maxBufferSize = mbs \<rparr>) of
         (acc100, rs) \<Rightarrow>
           list_all (\<lambda>r. \<not> isl r) rs \<and> length rs = 100 \<and>
           startBlock ty' acc100 = (acc100, Inl (MaxBlocksExceeded 100)) \<and>
           length (contentBlocks acc100) = 100))"
proof (intro conjI impI)
  show "startBlock ty acc = (acc, Inl (MaxBlocksExceeded (maxBlocks acc)))"
    if "maxBlocks acc \<le> length (contentBlocks acc)"
    using that by (rule startBlock_raises)
next
  assume "length (contentBlocks acc) < maxBlocks acc"
  from startBlock_appends [OF this, of ty]
  show "\<exists>acc'. startBlock ty acc =
            (acc', Inr \<lparr> index = currentBlockIndex acc + 1, type = ty, content = [],
                          started = True, stopped = False \<rparr>) \<and>
          contentBlocks acc' = contentBlocks acc @
            [\<lparr> index = currentBlockIndex acc + 1, type = ty, content = [],
               started = True, stopped = False \<rparr>] \<and>
          currentBlockIndex acc' = currentBlockIndex acc + 1"
    by blast
next
  assume len: "length tys = 100"
  define acc0 where
    "acc0 = DeltaAccumulator mid \<lparr> opt_maxBlocks = Some 100, opt_maxBufferSize = mbs \<rparr>"
  obtain acc100 rs where c: "call_startBlock tys acc0 = (acc100, rs)"
    by (cases "call_startBlock tys acc0")
  have m0: "maxBlocks acc0 = 100" and b0: "contentBlocks acc0 = []"
    by (simp_all add: acc0_def DeltaAccumulator_def)
  with len have "length (contentBlocks acc0) + length tys \<le> maxBlocks acc0" by simp
  from call_startBlock_below_limit [OF this c] len m0 b0
  have r: "list_all (\<lambda>r. \<not> isl r) rs" "length rs = 100"
    "length (contentBlocks acc100) = 100" "maxBlocks acc100 = 100"
    by simp_all
  then have "startBlock ty' acc100 = (acc100, Inl (MaxBlocksExceeded 100))"
    using startBlock_raises [of acc100 ty'] by simp
  with r c show "case call_startBlock tys
              (DeltaAccumulator mid \<lparr> opt_maxBlocks = Some 100, opt_maxBufferSize = mbs \<rparr>) of
         (acc100, rs) \<Rightarrow>
           list_all (\<lambda>r. \<not> isl r) rs \<and> length rs = 100 \<and>
           startBlock ty' acc100 = (acc100, Inl (MaxBlocksExceeded 100)) \<and>
           length (contentBlocks acc100) = 100"
    by (simp add: acc0_def)
qed

theorem startBlock_limit_witness:
  "length (contentBlocks (DeltaAccumulator ''m'' \<lparr> opt_maxBlocks = Some 1, opt_maxBufferSize = None \<rparr>)) <
     maxBlocks (DeltaAccumulator ''m'' \<lparr> opt_maxBlocks = Some 1, opt_maxBufferSize = None \<rparr>) \<and>
   fst (startBlock ''text'' (DeltaAccumulator ''m'' \<lparr> opt_maxBlocks = Some 1, opt_maxBufferSize = None \<rparr>)) =
     (DeltaAccumulator ''m'' \<lparr> opt_maxBlocks = Some 1, opt_maxBufferSize = None \<rparr>)
       \<lparr> currentBlockIndex := 0,
         contentBlocks := [\<lparr> index = 0, type = ''text'', content = [], started = True, stopped = False \<rparr>],
         textBuffer := [] \<rparr> \<and>
   length (replicate 100 ''thinking'') = 100 \<and>
   (case call_startBlock (replicate 100 ''thinking'')
           (DeltaAccumulator ''m'' \<lparr> opt_maxBlocks = Some 100, opt_maxBufferSize = None \<rparr>) of
      (acc100, rs) \<Rightarrow>
        list_all (\<lambda>r. \<not> isl r) rs \<and> length rs = 100 \<and>
        startBlock ''text'' acc100 = (acc100, Inl (MaxBlocksExceeded 100)) \<and>
        length (contentBlocks acc100) = 100)"
  using startBlock_limit [where acc = "DeltaAccumulator ''m'' \<lparr> opt_maxBlocks = Some 1, opt_maxBufferSize = None \<rparr>"
      and ty = "''text''" and tys = "replicate 100 ''thinking''" and mid = "''m''" and mbs = None
      and ty' = "''text''"]
  by (simp add: DeltaAccumulator_def startBlock_def Let_def)

subsection \<open>The working buffers agree with the blocks\<close>

text \<open>
  The accumulator keeps the text of the current block twice, in the block and in the
  working buffer of the block's type. The two agree in a fresh accumulator, and every
  operation of the accumulator and of the transformer keeps them in agreement, whether it
  returns or raises.
\<close>

lemma consistent_DeltaAccumulator: "consistent (DeltaAccumulator mid options)"
  by (simp add: consistent_def DeltaAccumulator_def getCurrentBlock_def)

lemma consistent_startBlock:
  "consistent acc \<Longrightarrow> startBlock ty acc = (acc', r) \<Longrightarrow> consistent acc'"
  by (auto simp: consistent_def startBlock_def getCurrentBlock_def Let_def nth_append
      split: option.splits if_splits)

lemma consistent_addDelta:
  "consistent acc \<Longrightarrow> addDelta d acc = (acc', r) \<Longrightarrow> consistent acc'"
  by (auto simp: consistent_def addDelta_def getCurrentBlock_def Let_def
      split: option.splits if_splits)

lemma consistent_stopCurrentBlock: "consistent acc \<Longrightarrow> consistent (stopCurrentBlock acc)"
  by (auto simp: consistent_def stopCurrentBlock_def getCurrentBlock_def
      split: option.splits if_splits)

lemma consistent_frame:
  assumes "consistent acc" "contentBlocks acc' = contentBlocks acc"
    "currentBlockIndex acc' = currentBlockIndex acc"
    "thinkingBuffer acc' = thinkingBuffer acc" "textBuffer acc' = textBuffer acc"
  shows "consistent acc'"
proof -
  have "getCurrentBlock acc' = getCurrentBlock acc"
    by (simp add: getCurrentBlock_def assms)
  with assms show ?thesis by (auto simp: consistent_def split: option.splits)
qed

lemma consistent_updateUsage: "consistent acc \<Longrightarrow> consistent (updateUsage u acc)"
  by (erule consistent_frame) (simp_all add: updateUsage_def split: option.splits)

lemma consistent_addToolCallDelta: "consistent acc \<Longrightarrow> consistent (addToolCallDelta t acc)"
  by (erule consistent_frame) (simp_all add: addToolCallDelta_def Let_def split: option.splits)

lemma consistent_open_block:
  "consistent acc \<Longrightarrow> open_block ty acc = (acc', r) \<Longrightarrow> consistent acc'"
  by (auto simp: open_block_def split: prod.splits sum.splits dest: consistent_startBlock)

lemma consistent_reasoning_section:
  "consistent acc \<Longrightarrow> reasoning_section rc acc = (acc', r) \<Longrightarrow> consistent acc'"
  unfolding reasoning_section_def
  by (auto split: prod.splits sum.splits option.splits if_splits
      dest: consistent_open_block consistent_addDelta)

lemma consistent_close_thinking:
  "consistent acc \<Longrightarrow> close_thinking h acc = (acc', evs) \<Longrightarrow> consistent acc'"
  unfolding close_thinking_def
  by (auto split: option.splits if_splits intro: consistent_stopCurrentBlock)

lemma consistent_text_section:
  assumes c: "consistent acc" and t: "text_section h c acc = (acc', r)"
  shows "consistent acc'"
proof -
  obtain acc0 evs0 where ct: "close_thinking h acc = (acc0, evs0)"
    by (cases "close_thinking h acc")
  from consistent_close_thinking [OF c ct] have c0: "consistent acc0" .
  define ob where
    "ob = (case getCurrentBlock acc0 of
             None \<Rightarrow> open_block ''text'' acc0
           | Some b \<Rightarrow> if type b \<noteq> ''text'' then open_block ''text'' acc0 else (acc0, Inr []))"
  obtain acc1 r1 where ob1: "ob = (acc1, r1)" by (cases ob)
  from c0 ob1 have c1: "consistent acc1"
    unfolding ob_def by (auto split: option.splits if_splits dest: consistent_open_block)
  obtain acc2 r2 where ad: "addDelta c acc1 = (acc2, r2)" by (cases "addDelta c acc1")
  from consistent_addDelta [OF c1 ad] have c2: "consistent acc2" .
  from t ct ob1 ad have "acc' = acc1 \<or> acc' = acc2"
    unfolding text_section_def ob_def Let_def
    by (auto split: sum.splits option.splits)
  with c1 c2 show ?thesis by blast
qed

lemma consistent_message_start_section:
  "consistent acc \<Longrightarrow> message_start_section d acc = (acc', evs) \<Longrightarrow> consistent acc'"
  by (erule consistent_frame) (auto simp: message_start_section_def Let_def split: if_splits)

lemma consistent_role_section: "consistent acc \<Longrightarrow> consistent (role_section dl acc)"
  by (erule consistent_frame) (simp_all add: role_section_def)

lemma consistent_finish_section: "consistent acc \<Longrightarrow> consistent (finish_section d ch acc)"
  by (erule consistent_frame)
    (simp_all add: finish_section_def updateUsage_def Let_def split: option.splits)

lemma consistent_finalizeDelta:
  "consistent acc \<Longrightarrow> finalizeDelta h acc = (acc', evs) \<Longrightarrow> consistent acc'"
proof -
  assume c: "consistent acc" and f: "finalizeDelta h acc = (acc', evs)"
  have fin: "consistent (a \<lparr> finalized := True \<rparr>)" if "consistent a" for a
    using that by (rule consistent_frame) simp_all
  from c f show ?thesis
    by (auto simp: finalizeDelta_def Let_def fin consistent_stopCurrentBlock
        split: if_splits option.splits)
qed

lemma consistent_transformDelta:
  assumes c: "consistent acc" and t: "transformDelta h ev acc = (acc', r)"
  shows "consistent acc'"
proof (cases "sse_event ev = ''done''")
  case True
  with t c show ?thesis
    by (auto simp: transformDelta_def split: prod.splits dest: consistent_finalizeDelta)
next
  case notdone: False
  show ?thesis
  proof (cases "\<exists>d ch chs dl. sse_data ev = Some d \<and> choices d = ch # chs \<and> c_delta ch = Some dl")
    case False
    with t notdone have "acc' = acc"
      by (auto simp: transformDelta_def split: option.splits list.splits)
    with c show ?thesis by simp
  next
    case True
    then obtain d ch chs dl where
      d: "sse_data ev = Some d" "choices d = ch # chs" "c_delta ch = Some dl"
      by blast
    obtain acc1 evs1 where ms: "message_start_section d acc = (acc1, evs1)"
      by (cases "message_start_section d acc")
    from consistent_message_start_section [OF c ms] have c1: "consistent acc1" .
    then have c2: "consistent (role_section dl acc1)" by (rule consistent_role_section)
    define rs where
      "rs = (if truthy (d_reasoning_content dl)
             then reasoning_section (the (d_reasoning_content dl)) (role_section dl acc1)
             else (role_section dl acc1, Inr []))"
    obtain acc3 r3 where rs3: "rs = (acc3, r3)" by (cases rs)
    from c2 rs3 have c3: "consistent acc3"
      unfolding rs_def by (auto split: if_splits dest: consistent_reasoning_section)
    define ts where
      "ts = (if truthy (d_content dl) then text_section h (the (d_content dl)) acc3
             else (acc3, Inr []))"
    obtain acc4 r4 where ts4: "ts = (acc4, r4)" by (cases ts)
    from c3 ts4 have c4: "consistent acc4"
      unfolding ts_def by (auto split: if_splits dest: consistent_text_section)
    then have c5: "consistent (finish_section d ch acc4)" by (rule consistent_finish_section)
    from t notdone d ms rs3 ts4
    have "acc' = acc3 \<or> acc' = acc4 \<or> acc' = finish_section d ch acc4"
      unfolding transformDelta_def rs_def ts_def Let_def
      by (auto split: sum.splits)
    with c3 c4 c5 show ?thesis by blast
  qed
qed

lemma consistent_run:
  "consistent acc \<Longrightarrow> run es acc = (acc', r) \<Longrightarrow> consistent acc'"
proof (induction es arbitrary: acc acc' r)
  case Nil
  then show ?case by simp
next
  case (Cons he es)
  obtain h e where he: "he = (h, e)" by (cases he)
  obtain acc1 r1 where t: "transformDelta h e acc = (acc1, r1)"
    by (cases "transformDelta h e acc")
  from consistent_transformDelta [OF Cons.prems(1) t] have c1: "consistent acc1" .
  show ?case
  proof (cases r1)
    case (Inl err)
    with Cons.prems(2) he t c1 show ?thesis by simp
  next
    case (Inr evs)
    obtain acc2 r2 where rr: "run es acc1 = (acc2, r2)" by (cases "run es acc1")
    from Cons.IH [OF c1 rr] have "consistent acc2" .
    with Cons.prems(2) he t Inr rr show ?thesis by (auto split: sum.splits)
  qed
qed

subsection \<open>The limit on the size of a block\<close>

lemma addDelta_thinking_overflow:
  "getCurrentBlock acc = Some b \<Longrightarrow> type b = ''thinking'' \<Longrightarrow>
   maxBufferSize acc < length (thinkingBuffer acc) + length d \<Longrightarrow>
     addDelta d acc = (acc, Inl (ThinkingBufferExceeded (maxBufferSize acc)))"
  by (simp add: addDelta_def)

lemma addDelta_text_overflow:
  "getCurrentBlock acc = Some b \<Longrightarrow> type b = ''text'' \<Longrightarrow>
   maxBufferSize acc < length (textBuffer acc) + length d \<Longrightarrow>
     addDelta d acc = (acc, Inl (TextBufferExceeded (maxBufferSize acc)))"
  by (simp add: addDelta_def)

lemma addDelta_other_type:
  "getCurrentBlock acc = Some b \<Longrightarrow> type b \<noteq> ''thinking'' \<Longrightarrow> type b \<noteq> ''text'' \<Longrightarrow>
     addDelta d acc = (acc, Inr ())"
  by (simp add: addDelta_def)

text \<open>
  C5, as the code has it. For a current block of type thinking or text, a delta whose
  length added to the length of that type's working buffer exceeds maxBufferSize makes
  addDelta raise the resource-limit error of that buffer and leaves the whole
  accumulator, and so the block's content and the working buffer, as it was. In an
  accumulator whose buffers agree with its blocks the same holds with the length of the
  block's content in place of the buffer's. For a current block of any other type
  (tool_use) addDelta does nothing and does not raise.
\<close>

theorem addDelta_limit:
  "getCurrentBlock acc = Some b \<Longrightarrow>
     (type b = ''thinking'' \<and> maxBufferSize acc < length (thinkingBuffer acc) + length d \<longrightarrow>
        addDelta d acc = (acc, Inl (ThinkingBufferExceeded (maxBufferSize acc)))) \<and>
     (type b = ''text'' \<and> maxBufferSize acc < length (textBuffer acc) + length d \<longrightarrow>
        addDelta d acc = (acc, Inl (TextBufferExceeded (maxBufferSize acc)))) \<and>
     (consistent acc \<and> (type b = ''thinking'' \<or> type b = ''text'') \<and>
      maxBufferSize acc < length (content b) + length d \<longrightarrow>
        (\<exists>e. addDelta d acc = (acc, Inl e) \<and> resource_limit e)) \<and>
     (type b \<noteq> ''thinking'' \<and> type b \<noteq> ''text'' \<longrightarrow> addDelta d acc = (acc, Inr ()))"
  by (auto simp: addDelta_thinking_overflow addDelta_text_overflow addDelta_other_type
      consistent_def)

theorem addDelta_limit_witness:
  "getCurrentBlock thinking_acc =
     Some \<lparr> index = 0, type = ''thinking'', content = [], started = True, stopped = False \<rparr> \<and>
   consistent thinking_acc \<and>
   maxBufferSize thinking_acc < length (thinkingBuffer thinking_acc) + length ''ab'' \<and>
   addDelta ''ab'' thinking_acc = (thinking_acc, Inl (ThinkingBufferExceeded 1))"
  using addDelta_limit [where acc = thinking_acc and d = "''ab''"
      and b = "\<lparr> index = 0, type = ''thinking'', content = [], started = True, stopped = False \<rparr>"]
  by (simp add: thinking_acc_def small_buffer_acc_def DeltaAccumulator_def startBlock_def
      getCurrentBlock_def consistent_def Let_def)

text \<open>
  C5 as stated, for every open block, fails on a block of type tool_use: the block is
  open, its content is empty, the limit is one character, and a delta of two characters
  is accepted without an error.
\<close>

theorem addDelta_tool_use_counterexample:
  "getCurrentBlock tool_use_acc =
     Some \<lparr> index = 0, type = ''tool_use'', content = [], started = True, stopped = False \<rparr> \<and>
   maxBufferSize tool_use_acc < length ([] :: string) + length ''ab'' \<and>
   addDelta ''ab'' tool_use_acc = (tool_use_acc, Inr ())"
  by (simp add: tool_use_acc_def small_buffer_acc_def DeltaAccumulator_def startBlock_def
      getCurrentBlock_def addDelta_def Let_def)

subsection \<open>What the content sections leave alone\<close>

lemma same_bookkeeping_refl: "same_bookkeeping acc acc"
  by (simp add: same_bookkeeping_def)

lemma same_bookkeeping_trans:
  "same_bookkeeping a b \<Longrightarrow> same_bookkeeping b c \<Longrightarrow> same_bookkeeping a c"
  by (simp add: same_bookkeeping_def)

lemma startBlock_bookkeeping: "startBlock ty acc = (acc', r) \<Longrightarrow> same_bookkeeping acc acc'"
  by (auto simp: startBlock_def same_bookkeeping_def Let_def split: if_splits)

lemma addDelta_bookkeeping: "addDelta d acc = (acc', r) \<Longrightarrow> same_bookkeeping acc acc'"
  by (auto simp: addDelta_def same_bookkeeping_def Let_def split: if_splits option.splits)

lemma stopCurrentBlock_bookkeeping: "same_bookkeeping acc (stopCurrentBlock acc)"
  by (simp add: stopCurrentBlock_def same_bookkeeping_def split: option.splits)

lemma open_block_bookkeeping: "open_block ty acc = (acc', r) \<Longrightarrow> same_bookkeeping acc acc'"
  by (auto simp: open_block_def split: prod.splits sum.splits dest: startBlock_bookkeeping)

lemma reasoning_section_bookkeeping:
  assumes "reasoning_section rc acc = (acc', r)"
  shows "same_bookkeeping acc acc'"
proof -
  define ob where
    "ob = (case getCurrentBlock acc of
             None \<Rightarrow> open_block ''thinking'' acc
           | Some b \<Rightarrow> if type b \<noteq> ''thinking'' then open_block ''thinking'' acc else (acc, Inr []))"
  obtain acc1 r1 where ob1: "ob = (acc1, r1)" by (cases ob)
  then have b1: "same_bookkeeping acc acc1"
    unfolding ob_def
    by (auto split: option.splits if_splits dest: open_block_bookkeeping
        simp: same_bookkeeping_refl)
  obtain acc2 r2 where ad: "addDelta rc acc1 = (acc2, r2)" by (cases "addDelta rc acc1")
  from b1 addDelta_bookkeeping [OF ad] have b2: "same_bookkeeping acc acc2"
    by (rule same_bookkeeping_trans)
  from assms ob1 ad have "acc' = acc1 \<or> acc' = acc2"
    unfolding reasoning_section_def ob_def by (auto split: sum.splits option.splits)
  with b1 b2 show ?thesis by blast
qed

lemma close_thinking_bookkeeping:
  "close_thinking h acc = (acc', evs) \<Longrightarrow> same_bookkeeping acc acc'"
  by (auto simp: close_thinking_def same_bookkeeping_refl stopCurrentBlock_bookkeeping
      split: option.splits if_splits)

lemma text_section_bookkeeping:
  assumes "text_section h c acc = (acc', r)"
  shows "same_bookkeeping acc acc'"
proof -
  obtain acc0 evs0 where ct: "close_thinking h acc = (acc0, evs0)"
    by (cases "close_thinking h acc")
  from close_thinking_bookkeeping [OF ct] have b0: "same_bookkeeping acc acc0" .
  define ob where
    "ob = (case getCurrentBlock acc0 of
             None \<Rightarrow> open_block ''text'' acc0
           | Some b \<Rightarrow> if type b \<noteq> ''text'' then open_block ''text'' acc0 else (acc0, Inr []))"
  obtain acc1 r1 where ob1: "ob = (acc1, r1)" by (cases ob)
  then have "same_bookkeeping acc0 acc1"
    unfolding ob_def
    by (auto split: option.splits if_splits dest: open_block_bookkeeping
        simp: same_bookkeeping_refl)
  with b0 have b1: "same_bookkeeping acc acc1" by (rule same_bookkeeping_trans)
  obtain acc2 r2 where ad: "addDelta c acc1 = (acc2, r2)" by (cases "addDelta c acc1")
  from b1 addDelta_bookkeeping [OF ad] have b2: "same_bookkeeping acc acc2"
    by (rule same_bookkeeping_trans)
  from assms ct ob1 ad have "acc' = acc1 \<or> acc' = acc2"
    unfolding text_section_def ob_def Let_def by (auto split: sum.splits option.splits)
  with b1 b2 show ?thesis by blast
qed

lemma message_start_section_bookkeeping:
  "message_start_section d acc = (acc', evs) \<Longrightarrow> same_bookkeeping acc acc'"
  by (auto simp: message_start_section_def same_bookkeeping_def Let_def split: if_splits)

lemma role_section_bookkeeping: "same_bookkeeping acc (role_section dl acc)"
  by (simp add: role_section_def same_bookkeeping_def)

subsection \<open>The events of a delta do not depend on the output-token counter\<close>

lemma getCurrentBlock_outputTokens [simp]:
  "getCurrentBlock (acc \<lparr> outputTokens := n \<rparr>) = getCurrentBlock acc"
  by (simp add: getCurrentBlock_def)

lemma startBlock_outputTokens:
  "startBlock ty (acc \<lparr> outputTokens := n \<rparr>) =
     apfst (\<lambda>a. a \<lparr> outputTokens := n \<rparr>) (startBlock ty acc)"
  by (simp add: startBlock_def Let_def)

lemma addDelta_outputTokens:
  "addDelta d (acc \<lparr> outputTokens := n \<rparr>) =
     apfst (\<lambda>a. a \<lparr> outputTokens := n \<rparr>) (addDelta d acc)"
  by (simp add: addDelta_def Let_def split: option.splits)

lemma stopCurrentBlock_outputTokens:
  "stopCurrentBlock (acc \<lparr> outputTokens := n \<rparr>) = (stopCurrentBlock acc) \<lparr> outputTokens := n \<rparr>"
  by (simp add: stopCurrentBlock_def split: option.splits)

lemma open_block_outputTokens:
  "open_block ty (acc \<lparr> outputTokens := n \<rparr>) =
     apfst (\<lambda>a. a \<lparr> outputTokens := n \<rparr>) (open_block ty acc)"
  by (simp add: open_block_def startBlock_outputTokens split: prod.splits sum.splits)

lemma reasoning_section_outputTokens:
  "reasoning_section rc (acc \<lparr> outputTokens := n \<rparr>) =
     apfst (\<lambda>a. a \<lparr> outputTokens := n \<rparr>) (reasoning_section rc acc)"
  by (auto simp: reasoning_section_def open_block_outputTokens addDelta_outputTokens
      split: prod.splits sum.splits option.splits)

lemma close_thinking_outputTokens:
  "close_thinking h (acc \<lparr> outputTokens := n \<rparr>) =
     apfst (\<lambda>a. a \<lparr> outputTokens := n \<rparr>) (close_thinking h acc)"
  by (simp add: close_thinking_def stopCurrentBlock_outputTokens split: option.splits)

lemma text_section_outputTokens:
  "text_section h c (acc \<lparr> outputTokens := n \<rparr>) =
     apfst (\<lambda>a. a \<lparr> outputTokens := n \<rparr>) (text_section h c acc)"
  by (auto simp: text_section_def Let_def close_thinking_outputTokens open_block_outputTokens
      addDelta_outputTokens split: prod.splits sum.splits option.splits)

lemma message_start_section_outputTokens:
  "message_start_section d (acc \<lparr> outputTokens := n \<rparr>) =
     apfst (\<lambda>a. a \<lparr> outputTokens := n \<rparr>) (message_start_section d acc)"
  by (simp add: message_start_section_def createMessageStartEvent_def Let_def)

lemma role_section_outputTokens:
  "role_section dl (acc \<lparr> outputTokens := n \<rparr>) = (role_section dl acc) \<lparr> outputTokens := n \<rparr>"
  by (simp add: role_section_def)

lemma transformDelta_outputTokens:
  assumes "sse_event ev \<noteq> ''done''"
  shows "snd (transformDelta h ev (acc \<lparr> outputTokens := n \<rparr>)) = snd (transformDelta h ev acc)"
  using assms
  by (auto simp: transformDelta_def Let_def message_start_section_outputTokens
      role_section_outputTokens reasoning_section_outputTokens text_section_outputTokens
      split: prod.splits sum.splits option.splits list.splits)

subsection \<open>The shape of a call on a delta\<close>

lemma finish_section_tokens:
  "chunk_usage d = Some us \<Longrightarrow>
     inputTokens (finish_section d ch acc) = num_or (prompt_tokens us) (num_or (input_tokens us) 0) \<and>
     outputTokens (finish_section d ch acc) =
       num_or (completion_tokens us) (num_or (output_tokens us) 0)"
  by (simp add: finish_section_def updateUsage_def Let_def)

lemma finish_section_bookkeeping:
  "toolCalls (finish_section d ch acc) = toolCalls acc \<and>
   toolCallsIndex (finish_section d ch acc) = toolCallsIndex acc \<and>
   finalized (finish_section d ch acc) = finalized acc"
  by (simp add: finish_section_def updateUsage_def Let_def split: option.splits)

text \<open>The shape of a call on an event with a first choice and a delta.\<close>

lemma transformDelta_delta:
  assumes "sse_event ev \<noteq> ''done''" "sse_data ev = Some d" "choices d = ch # chs"
    "c_delta ch = Some dl" "transformDelta h ev acc = (acc', r)"
  obtains (raised) e where "r = Inl e" "same_bookkeeping acc acc'"
  | (returned) acc1 evs1 acc3 evs2 acc4 evs3 where
      "message_start_section d acc = (acc1, evs1)"
      "(if truthy (d_reasoning_content dl)
        then reasoning_section (the (d_reasoning_content dl)) (role_section dl acc1)
        else (role_section dl acc1, Inr [])) = (acc3, Inr evs2)"
      "(if truthy (d_content dl) then text_section h (the (d_content dl)) acc3
        else (acc3, Inr [])) = (acc4, Inr evs3)"
      "acc' = finish_section d ch acc4" "r = Inr (evs1 @ evs2 @ evs3)"
      "same_bookkeeping acc acc4"
proof -
  obtain acc1 evs1 where ms: "message_start_section d acc = (acc1, evs1)"
    by (cases "message_start_section d acc")
  from message_start_section_bookkeeping [OF ms] role_section_bookkeeping [of acc1 dl]
  have b2: "same_bookkeeping acc (role_section dl acc1)"
    by (rule same_bookkeeping_trans)
  define rs where
    "rs = (if truthy (d_reasoning_content dl)
           then reasoning_section (the (d_reasoning_content dl)) (role_section dl acc1)
           else (role_section dl acc1, Inr []))"
  obtain acc3 r3 where rs3: "rs = (acc3, r3)" by (cases rs)
  then have "same_bookkeeping (role_section dl acc1) acc3"
    unfolding rs_def
    by (auto split: if_splits dest: reasoning_section_bookkeeping simp: same_bookkeeping_refl)
  with b2 have b3: "same_bookkeeping acc acc3" by (rule same_bookkeeping_trans)
  define ts where
    "ts = (if truthy (d_content dl) then text_section h (the (d_content dl)) acc3
           else (acc3, Inr []))"
  obtain acc4 r4 where ts4: "ts = (acc4, r4)" by (cases ts)
  then have "same_bookkeeping acc3 acc4"
    unfolding ts_def
    by (auto split: if_splits dest: text_section_bookkeeping simp: same_bookkeeping_refl)
  with b3 have b4: "same_bookkeeping acc acc4" by (rule same_bookkeeping_trans)
  from assms ms rs3 have t: "transformDelta h ev acc =
      (case r3 of Inl e \<Rightarrow> (acc3, Inl e)
       | Inr evs2 \<Rightarrow> (case ts of (acc4, Inl e) \<Rightarrow> (acc4, Inl e)
                      | (acc4, Inr evs3) \<Rightarrow> (finish_section d ch acc4, Inr (evs1 @ evs2 @ evs3))))"
    unfolding transformDelta_def rs_def ts_def Let_def by (simp split: sum.splits)
  show thesis
  proof (cases r3)
    case (Inl e)
    with t assms(5) b3 show thesis by (intro raised [of e]) simp_all
  next
    case r3: (Inr evs2)
    show thesis
    proof (cases r4)
      case (Inl e)
      with t r3 ts4 assms(5) b4 show thesis by (intro raised [of e]) simp_all
    next
      case (Inr evs3)
      with t r3 ts4 assms(5) b4 ms rs3 show thesis
        by (intro returned [of acc1 evs1 acc3 evs2 acc4 evs3]) (simp_all add: rs_def ts_def)
    qed
  qed
qed

subsection \<open>Usage\<close>

lemma no_message_delta_simps [simp]:
  "no_message_delta []"
  "no_message_delta (e # evs) = (event e \<noteq> ''message_delta'' \<and> no_message_delta evs)"
  "no_message_delta (evs @ evs') = (no_message_delta evs \<and> no_message_delta evs')"
  by (simp_all add: no_message_delta_def)

lemma open_block_events: "open_block ty acc = (acc', Inr evs) \<Longrightarrow> no_message_delta evs"
  by (auto simp: open_block_def createContentBlockStartEvent_def split: prod.splits sum.splits)

lemma reasoning_section_events:
  "reasoning_section rc acc = (acc', Inr evs) \<Longrightarrow> no_message_delta evs"
  by (auto simp: reasoning_section_def createThinkingDeltaEvent_def
      split: prod.splits sum.splits option.splits if_splits dest: open_block_events)

lemma close_thinking_events: "close_thinking h acc = (acc', evs) \<Longrightarrow> no_message_delta evs"
  by (auto simp: close_thinking_def createSignatureDeltaEvent_def createContentBlockStopEvent_def
      split: option.splits if_splits)

lemma text_section_events:
  "text_section h c acc = (acc', Inr evs) \<Longrightarrow> no_message_delta evs"
  by (auto simp: text_section_def Let_def createTextDeltaEvent_def
      split: prod.splits sum.splits option.splits if_splits
      dest: open_block_events close_thinking_events)

lemma message_start_section_events:
  "message_start_section d acc = (acc', evs) \<Longrightarrow> no_message_delta evs"
  by (auto simp: message_start_section_def createMessageStartEvent_def Let_def split: if_splits)

lemma finalizeDelta_surfaces:
  assumes "\<not> finalized acc"
  shows "\<exists>pre. snd (finalizeDelta h acc) =
           pre @ [\<lparr> event = ''message_delta'',
                    data = message_delta
                      (mapStopReason (if truthy (finishReason acc) then the (finishReason acc)
                                      else ''stop''))
                      (outputTokens acc) \<rparr>,
                  \<lparr> event = ''message_stop'', data = message_stop \<rparr>]"
  using assms
  by (auto simp: finalizeDelta_def Let_def stopCurrentBlock_def split: option.splits)

lemma transformDelta_without_usage:
  assumes "sse_event ev \<noteq> ''done''" "sse_data ev = Some d"
  shows "snd (transformDelta h (ev \<lparr> sse_data := Some (d \<lparr> chunk_usage := None \<rparr>) \<rparr>) acc) =
         snd (transformDelta h ev acc)"
  using assms
  by (auto simp: transformDelta_def message_start_section_def Let_def
      split: list.splits option.splits prod.splits sum.splits)

text \<open>
  C6, as the code has it. Take an upstream event that is not the sentinel, whose payload
  has a first choice with a delta and carries a usage object, and whose processing raises
  no error. Then transformDelta stores the usage in the accumulator's counters, the
  prompt_tokens/completion_tokens naming first and the input_tokens/output_tokens naming
  second (a count of zero or an absent count passes to the next name, and to 0 at last).
  It emits no event for the usage: the events are those of the same upstream event
  without its usage, none of them is a message_delta, and they do not depend on the
  output-token counter. The stored output-token count is the one the message_delta of
  Finalize carries.
\<close>

theorem usage_stored_and_surfaces_at_finalize:
  assumes "sse_event ev \<noteq> ''done''" and "sse_data ev = Some d" and "choices d = ch # chs"
    and "c_delta ch = Some dl" and "chunk_usage d = Some us"
    and "transformDelta h ev acc = (acc', Inr evs)"
  shows "inputTokens acc' = num_or (prompt_tokens us) (num_or (input_tokens us) 0) \<and>
         outputTokens acc' = num_or (completion_tokens us) (num_or (output_tokens us) 0) \<and>
         snd (transformDelta h (ev \<lparr> sse_data := Some (d \<lparr> chunk_usage := None \<rparr>) \<rparr>) acc) = Inr evs \<and>
         snd (transformDelta h ev (acc \<lparr> outputTokens := n \<rparr>)) = Inr evs \<and>
         no_message_delta evs \<and>
         (if finalized acc then finalizeDelta h' acc' = (acc', [])
          else \<exists>pre. snd (finalizeDelta h' acc') =
                 pre @ [\<lparr> event = ''message_delta'',
                          data = message_delta
                            (mapStopReason (if truthy (finishReason acc') then the (finishReason acc')
                                            else ''stop''))
                            (outputTokens acc') \<rparr>,
                        \<lparr> event = ''message_stop'', data = message_stop \<rparr>])"
  using assms(1-4,6)
proof (cases rule: transformDelta_delta)
  case (raised e)
  then show ?thesis by simp
next
  case (returned acc1 evs1 acc3 evs2 acc4 evs3)
  from returned(4) assms(5) have tokens:
    "inputTokens acc' = num_or (prompt_tokens us) (num_or (input_tokens us) 0)"
    "outputTokens acc' = num_or (completion_tokens us) (num_or (output_tokens us) 0)"
    by (simp_all add: finish_section_tokens)
  from transformDelta_without_usage [OF assms(1,2), where h = h and acc = acc] assms(6)
  have stripped: "snd (transformDelta h (ev \<lparr> sse_data := Some (d \<lparr> chunk_usage := None \<rparr>) \<rparr>) acc) = Inr evs"
    by simp
  from transformDelta_outputTokens [OF assms(1), where h = h and acc = acc and n = n] assms(6)
  have indep: "snd (transformDelta h ev (acc \<lparr> outputTokens := n \<rparr>)) = Inr evs" by simp
  from returned(1) have e1: "no_message_delta evs1" by (rule message_start_section_events)
  from returned(2) have e2: "no_message_delta evs2"
    by (auto split: if_splits dest: reasoning_section_events)
  from returned(3) have e3: "no_message_delta evs3"
    by (auto split: if_splits dest: text_section_events)
  from returned(5) e1 e2 e3 have names: "no_message_delta evs" by simp
  from returned(4,6) have fin: "finalized acc' = finalized acc"
    by (simp add: finish_section_bookkeeping same_bookkeeping_def)
  have surf: "if finalized acc then finalizeDelta h' acc' = (acc', [])
          else \<exists>pre. snd (finalizeDelta h' acc') =
                 pre @ [\<lparr> event = ''message_delta'',
                          data = message_delta
                            (mapStopReason (if truthy (finishReason acc') then the (finishReason acc')
                                            else ''stop''))
                            (outputTokens acc') \<rparr>,
                        \<lparr> event = ''message_stop'', data = message_stop \<rparr>]"
  proof (cases "finalized acc")
    case True
    with fin show ?thesis by (simp add: finalizeDelta_def)
  next
    case False
    with fin finalizeDelta_surfaces [where acc = acc' and h = h'] show ?thesis by simp
  qed
  from tokens stripped indep names surf show ?thesis by blast
qed

theorem usage_stored_and_surfaces_at_finalize_witness:
  "sse_event usage_event \<noteq> ''done'' \<and>
   chunk_usage (the (sse_data usage_event)) =
     Some \<lparr> prompt_tokens = None, input_tokens = Some 3,
            completion_tokens = None, output_tokens = Some 5 \<rparr> \<and>
   snd (transformDelta host0 usage_event (DeltaAccumulator ''m'' default_options)) =
     Inr [createMessageStartEvent (DeltaAccumulator ''m'' default_options)] \<and>
   inputTokens (fst (transformDelta host0 usage_event (DeltaAccumulator ''m'' default_options))) = 3 \<and>
   outputTokens (fst (transformDelta host0 usage_event (DeltaAccumulator ''m'' default_options))) = 5 \<and>
   snd (finalizeDelta host0
          (fst (transformDelta host0 usage_event (DeltaAccumulator ''m'' default_options)))) =
     [\<lparr> event = ''message_delta'', data = message_delta ''end_turn'' 5 \<rparr>,
      \<lparr> event = ''message_stop'', data = message_stop \<rparr>]"
  using usage_stored_and_surfaces_at_finalize [where ev = usage_event
      and d = "the (sse_data usage_event)" and ch = "hd (choices (the (sse_data usage_event)))"
      and chs = "[]" and dl = "the (c_delta (hd (choices (the (sse_data usage_event)))))"
      and us = "\<lparr> prompt_tokens = None, input_tokens = Some 3,
                  completion_tokens = None, output_tokens = Some 5 \<rparr>"
      and h = host0 and acc = "DeltaAccumulator ''m'' default_options"
      and acc' = "fst (transformDelta host0 usage_event (DeltaAccumulator ''m'' default_options))"
      and evs = "[createMessageStartEvent (DeltaAccumulator ''m'' default_options)]"
      and h' = host0 and n = 0]
  by (simp add: usage_event_def input_defs stream_defs Let_def)

text \<open>
  C6 as stated, for every upstream event that carries a usage object, fails on an event
  that has usage and no choice: transformDelta returns at once, the counters keep their
  value 0, and the message_delta of Finalize reports 0 output tokens where the usage said
  5.
\<close>

theorem usage_without_choice_counterexample:
  "chunk_usage (the (sse_data usage_only_event)) =
     Some \<lparr> prompt_tokens = Some 3, input_tokens = None,
            completion_tokens = Some 5, output_tokens = None \<rparr> \<and>
   transformDelta host0 usage_only_event (DeltaAccumulator ''m'' default_options) =
     (DeltaAccumulator ''m'' default_options, Inr []) \<and>
   outputTokens (DeltaAccumulator ''m'' default_options) = 0 \<and>
   snd (finalizeDelta host0
          (fst (transformDelta host0 usage_only_event (DeltaAccumulator ''m'' default_options)))) =
     [\<lparr> event = ''message_delta'', data = message_delta ''end_turn'' 0 \<rparr>,
      \<lparr> event = ''message_stop'', data = message_stop \<rparr>]"
  by (simp add: usage_only_event_def input_defs stream_defs Let_def)

subsection \<open>Tool-call fragments\<close>

text \<open>
  \<^verbatim>\<open>transformDelta\<close> has no branch for \<^verbatim>\<open>delta.tool_calls\<close>: it does not hand the fragments
  to the accumulator, where the buffered \<^verbatim>\<open>transformResponse\<close> turns the tool calls of a
  response into tool_use blocks. The two lemmas below record what the code does; they are
  the frame the later lemmas need, not a statement of what it should do.
\<close>

lemma finalizeDelta_bookkeeping:
  "toolCalls (fst (finalizeDelta h acc)) = toolCalls acc \<and>
   toolCallsIndex (fst (finalizeDelta h acc)) = toolCallsIndex acc"
  by (simp add: finalizeDelta_def Let_def stopCurrentBlock_def split: option.splits)

lemma transformDelta_toolCalls:
  "toolCalls (fst (transformDelta h ev acc)) = toolCalls acc \<and>
   toolCallsIndex (fst (transformDelta h ev acc)) = toolCallsIndex acc"
proof (cases "sse_event ev = ''done''")
  case True
  then show ?thesis
    using finalizeDelta_bookkeeping [of h acc]
    by (cases "finalizeDelta h acc") (simp add: transformDelta_def)
next
  case notdone: False
  show ?thesis
  proof (cases "\<exists>d ch chs dl. sse_data ev = Some d \<and> choices d = ch # chs \<and> c_delta ch = Some dl")
    case False
    with notdone have "fst (transformDelta h ev acc) = acc"
      by (auto simp: transformDelta_def split: option.splits list.splits)
    then show ?thesis by simp
  next
    case True
    then obtain d ch chs dl where
      d: "sse_data ev = Some d" "choices d = ch # chs" "c_delta ch = Some dl"
      by blast
    obtain acc' r where t: "transformDelta h ev acc = (acc', r)"
      by (cases "transformDelta h ev acc")
    from notdone d t show ?thesis
    proof (cases rule: transformDelta_delta)
      case (raised e)
      with t show ?thesis by (simp add: same_bookkeeping_def)
    next
      case (returned acc1 evs1 acc3 evs2 acc4 evs3)
      with t show ?thesis by (simp add: same_bookkeeping_def finish_section_bookkeeping)
    qed
  qed
qed

lemma role_section_tool_calls [simp]:
  "role_section (dl \<lparr> d_tool_calls := x \<rparr>) acc = role_section dl acc"
  by (simp add: role_section_def)

lemma finish_section_tool_calls [simp]:
  "finish_section (d \<lparr> choices := x \<rparr>) (ch \<lparr> c_delta := y \<rparr>) acc = finish_section d ch acc"
  by (simp add: finish_section_def Let_def cong: if_cong)

lemma message_start_section_tool_calls [simp]:
  "message_start_section (d \<lparr> choices := x \<rparr>) acc = message_start_section d acc"
  by (simp add: message_start_section_def)

lemma transformDelta_strip_tool_calls:
  "transformDelta h (strip_tool_calls ev) acc = transformDelta h ev acc"
proof (cases "sse_data ev")
  case None
  then show ?thesis by (simp add: transformDelta_def strip_tool_calls_def)
next
  case (Some d)
  show ?thesis
  proof (cases "choices d")
    case Nil
    with Some show ?thesis by (simp add: transformDelta_def strip_tool_calls_def)
  next
    case (Cons ch chs)
    show ?thesis
    proof (cases "c_delta ch")
      case None
      with Some Cons show ?thesis by (simp add: transformDelta_def strip_tool_calls_def)
    next
      case dl: (Some dl)
      with Some Cons show ?thesis
        by (simp add: transformDelta_def strip_tool_calls_def cong: if_cong)
    qed
  qed
qed

lemma addToolCallDelta_new:
  assumes "map_of (toolCallsIndex acc) (tcd_index t) = None"
  shows "toolCalls (addToolCallDelta t acc) =
           toolCalls acc @
           [\<lparr> tc_index = tcd_index t,
              tc_id = (if truthy (tcd_id t) then the (tcd_id t) else []),
              tc_type = (if truthy (tcd_type t) then the (tcd_type t) else ''function''),
              tc_name = (case tcd_function t of None \<Rightarrow> []
                         | Some f \<Rightarrow> (case fd_name f of None \<Rightarrow> [] | Some s \<Rightarrow> s)),
              tc_arguments = (case tcd_function t of None \<Rightarrow> []
                              | Some f \<Rightarrow> (case fd_arguments f of None \<Rightarrow> [] | Some s \<Rightarrow> s)) \<rparr>] \<and>
         toolCallsIndex (addToolCallDelta t acc) =
           (tcd_index t, length (toolCalls acc)) # toolCallsIndex acc"
  using assms
  by (auto simp: addToolCallDelta_def Let_def split: option.splits)

lemma addToolCallDelta_known:
  assumes "map_of (toolCallsIndex acc) (tcd_index t) = Some p" and "p < length (toolCalls acc)"
  shows "toolCalls (addToolCallDelta t acc) =
           (toolCalls acc)
             [p := (toolCalls acc ! p)
                \<lparr> tc_id := (if truthy (tcd_id t) then the (tcd_id t) else tc_id (toolCalls acc ! p)),
                  tc_type := (if truthy (tcd_type t) then the (tcd_type t)
                              else tc_type (toolCalls acc ! p)),
                  tc_name := tc_name (toolCalls acc ! p) @
                    (case tcd_function t of None \<Rightarrow> []
                     | Some f \<Rightarrow> (case fd_name f of None \<Rightarrow> [] | Some s \<Rightarrow> s)),
                  tc_arguments := tc_arguments (toolCalls acc ! p) @
                    (case tcd_function t of None \<Rightarrow> []
                     | Some f \<Rightarrow> (case fd_arguments f of None \<Rightarrow> [] | Some s \<Rightarrow> s)) \<rparr>] \<and>
         toolCallsIndex (addToolCallDelta t acc) = toolCallsIndex acc"
  using assms
  by (auto simp: addToolCallDelta_def Let_def split: option.splits)

subsection \<open>The index of the tool-call entries\<close>

lemma tool_calls_indexed_DeltaAccumulator: "tool_calls_indexed (DeltaAccumulator mid options)"
  by (simp add: tool_calls_indexed_def DeltaAccumulator_def)

lemma tool_calls_indexed_lookup:
  assumes "tool_calls_indexed acc" and "map_of (toolCallsIndex acc) i = Some p"
  shows "p < length (toolCalls acc) \<and> tc_index (toolCalls acc ! p) = i"
proof -
  from assms(2) have "(i, p) \<in> set (toolCallsIndex acc)" by (rule map_of_SomeD)
  with assms(1) show ?thesis
    by (auto simp: tool_calls_indexed_def list_all_iff)
qed

lemma tool_calls_indexed_frame:
  "tool_calls_indexed acc \<Longrightarrow> toolCalls acc' = toolCalls acc \<Longrightarrow>
   toolCallsIndex acc' = toolCallsIndex acc \<Longrightarrow> tool_calls_indexed acc'"
  by (simp add: tool_calls_indexed_def)

lemma tool_calls_indexed_new:
  assumes inv: "tool_calls_indexed acc" and new: "map_of (toolCallsIndex acc) (tcd_index t) = None"
  shows "tool_calls_indexed (addToolCallDelta t acc)"
proof -
  let ?tcs = "toolCalls acc" and ?idx = "toolCallsIndex acc" and ?i = "tcd_index t"
  from addToolCallDelta_new [OF new] obtain e where
    tcs: "toolCalls (addToolCallDelta t acc) = ?tcs @ [e]" and ei: "tc_index e = ?i" and
    idx: "toolCallsIndex (addToolCallDelta t acc) = (?i, length ?tcs) # ?idx"
    by auto
  from inv have a: "\<forall>(i, p) \<in> set ?idx. p < length ?tcs \<and> tc_index (?tcs ! p) = i"
    and b: "\<forall>u \<in> set ?tcs. map_of ?idx (tc_index u) \<noteq> None"
    and c: "distinct (map tc_index ?tcs)"
    by (simp_all add: tool_calls_indexed_def list_all_iff)
  from b new have fresh: "?i \<notin> tc_index ` set ?tcs" by auto
  from a have a': "\<forall>(i, p) \<in> set ?idx.
      p < length (?tcs @ [e]) \<and> tc_index ((?tcs @ [e]) ! p) = i"
    by (auto simp: nth_append)
  have "list_all (\<lambda>(i, p). p < length (?tcs @ [e]) \<and> tc_index ((?tcs @ [e]) ! p) = i)
          ((?i, length ?tcs) # ?idx)"
    using a' ei by (simp add: list_all_iff)
  moreover have "list_all (\<lambda>u. map_of ((?i, length ?tcs) # ?idx) (tc_index u) \<noteq> None) (?tcs @ [e])"
    using b ei by (auto simp: list_all_iff)
  moreover have "distinct (map tc_index (?tcs @ [e]))"
    using c fresh ei by simp
  ultimately show ?thesis
    by (simp add: tool_calls_indexed_def tcs idx)
qed

lemma tool_calls_indexed_known:
  assumes inv: "tool_calls_indexed acc" and known: "map_of (toolCallsIndex acc) (tcd_index t) = Some p"
  shows "tool_calls_indexed (addToolCallDelta t acc)"
proof -
  let ?tcs = "toolCalls acc" and ?idx = "toolCallsIndex acc" and ?i = "tcd_index t"
  from tool_calls_indexed_lookup [OF inv known]
  have p: "p < length ?tcs" and pi: "tc_index (?tcs ! p) = ?i" by simp_all
  from addToolCallDelta_known [OF known p] obtain e where
    tcs: "toolCalls (addToolCallDelta t acc) = ?tcs [p := e]" and ei: "tc_index e = tc_index (?tcs ! p)" and
    idx: "toolCallsIndex (addToolCallDelta t acc) = ?idx"
    by auto
  from p ei have same: "map tc_index (?tcs [p := e]) = map tc_index ?tcs"
    by (simp add: map_update list_update_same_conv)
  from inv have a: "\<forall>(i, q) \<in> set ?idx. q < length ?tcs \<and> tc_index (?tcs ! q) = i"
    and b: "\<forall>u \<in> set ?tcs. map_of ?idx (tc_index u) \<noteq> None"
    and c: "distinct (map tc_index ?tcs)"
    by (simp_all add: tool_calls_indexed_def list_all_iff)
  have nth_same: "tc_index ((?tcs [p := e]) ! q) = tc_index (?tcs ! q)" if "q < length ?tcs" for q
  proof -
    from that have "tc_index ((?tcs [p := e]) ! q) = map tc_index (?tcs [p := e]) ! q" by simp
    also from that have "\<dots> = tc_index (?tcs ! q)" by (simp only: same nth_map)
    finally show ?thesis .
  qed
  have a': "\<forall>(i, q) \<in> set ?idx. q < length (?tcs [p := e]) \<and> tc_index ((?tcs [p := e]) ! q) = i"
    using a nth_same by auto
  have "set (map tc_index (?tcs [p := e])) = set (map tc_index ?tcs)" using same by simp
  then have b': "\<forall>u \<in> set (?tcs [p := e]). map_of ?idx (tc_index u) \<noteq> None"
    using b by (metis (no_types, lifting) image_iff list.set_map)
  from a' b' c same show ?thesis
    by (simp add: tool_calls_indexed_def tcs idx list_all_iff)
qed

lemma tool_calls_indexed_addToolCallDelta:
  "tool_calls_indexed acc \<Longrightarrow> tool_calls_indexed (addToolCallDelta t acc)"
  by (cases "map_of (toolCallsIndex acc) (tcd_index t)")
    (auto intro: tool_calls_indexed_new tool_calls_indexed_known)

lemma tool_calls_indexed_transformDelta:
  "tool_calls_indexed acc \<Longrightarrow> tool_calls_indexed (fst (transformDelta h ev acc))"
  by (erule tool_calls_indexed_frame) (simp_all add: transformDelta_toolCalls)

lemma tool_calls_indexed_bookkeeping:
  "tool_calls_indexed acc \<Longrightarrow> same_bookkeeping acc acc' \<Longrightarrow> tool_calls_indexed acc'"
  by (erule tool_calls_indexed_frame) (simp_all add: same_bookkeeping_def)

lemma tool_calls_indexed_updateUsage:
  "tool_calls_indexed acc \<Longrightarrow> tool_calls_indexed (updateUsage u acc)"
  by (erule tool_calls_indexed_frame) (simp_all add: updateUsage_def split: option.splits)

text \<open>
  C3, as the code has it. The events that transformDelta returns for an upstream delta
  do not depend on the tool-call fragments the delta carries: they are the events of the
  same delta without the fragments, so no content-block event is emitted for a fragment.
  The accumulator accumulates a fragment, in addToolCallDelta, into one entry per call
  index: in an accumulator whose entries are indexed (as they are in a fresh one and after
  every operation) a fragment with a new call index appends one entry, a fragment with a
  known call index updates the entry of that index and no other, and the entries stay
  indexed. The name and the argument string of the entry grow by the fragment's; the id
  and the type are not concatenated: a non-empty id or type of the fragment replaces the
  entry's.
\<close>

theorem tool_call_fragments:
  "snd (transformDelta h (strip_tool_calls ev) acc) = snd (transformDelta h ev acc) \<and>
   (tool_calls_indexed acc \<longrightarrow>
      tool_calls_indexed (addToolCallDelta t acc) \<and>
      (case map_of (toolCallsIndex acc) (tcd_index t) of
         None \<Rightarrow>
           toolCalls (addToolCallDelta t acc) =
             toolCalls acc @
             [\<lparr> tc_index = tcd_index t,
                tc_id = (if truthy (tcd_id t) then the (tcd_id t) else []),
                tc_type = (if truthy (tcd_type t) then the (tcd_type t) else ''function''),
                tc_name = (case tcd_function t of None \<Rightarrow> []
                           | Some f \<Rightarrow> (case fd_name f of None \<Rightarrow> [] | Some s \<Rightarrow> s)),
                tc_arguments = (case tcd_function t of None \<Rightarrow> []
                                | Some f \<Rightarrow> (case fd_arguments f of None \<Rightarrow> [] | Some s \<Rightarrow> s)) \<rparr>] \<and>
           toolCallsIndex (addToolCallDelta t acc) =
             (tcd_index t, length (toolCalls acc)) # toolCallsIndex acc
       | Some p \<Rightarrow>
           p < length (toolCalls acc) \<and> tc_index (toolCalls acc ! p) = tcd_index t \<and>
           toolCalls (addToolCallDelta t acc) =
             (toolCalls acc)
               [p := (toolCalls acc ! p)
                  \<lparr> tc_id := (if truthy (tcd_id t) then the (tcd_id t)
                              else tc_id (toolCalls acc ! p)),
                    tc_type := (if truthy (tcd_type t) then the (tcd_type t)
                                else tc_type (toolCalls acc ! p)),
                    tc_name := tc_name (toolCalls acc ! p) @
                      (case tcd_function t of None \<Rightarrow> []
                       | Some f \<Rightarrow> (case fd_name f of None \<Rightarrow> [] | Some s \<Rightarrow> s)),
                    tc_arguments := tc_arguments (toolCalls acc ! p) @
                      (case tcd_function t of None \<Rightarrow> []
                       | Some f \<Rightarrow> (case fd_arguments f of None \<Rightarrow> [] | Some s \<Rightarrow> s)) \<rparr>] \<and>
           toolCallsIndex (addToolCallDelta t acc) = toolCallsIndex acc))"
proof (intro conjI impI)
  show "snd (transformDelta h (strip_tool_calls ev) acc) = snd (transformDelta h ev acc)"
    by (simp add: transformDelta_strip_tool_calls)
next
  assume "tool_calls_indexed acc"
  then show "tool_calls_indexed (addToolCallDelta t acc)"
    by (rule tool_calls_indexed_addToolCallDelta)
next
  assume inv: "tool_calls_indexed acc"
  show "case map_of (toolCallsIndex acc) (tcd_index t) of
         None \<Rightarrow>
           toolCalls (addToolCallDelta t acc) =
             toolCalls acc @
             [\<lparr> tc_index = tcd_index t,
                tc_id = (if truthy (tcd_id t) then the (tcd_id t) else []),
                tc_type = (if truthy (tcd_type t) then the (tcd_type t) else ''function''),
                tc_name = (case tcd_function t of None \<Rightarrow> []
                           | Some f \<Rightarrow> (case fd_name f of None \<Rightarrow> [] | Some s \<Rightarrow> s)),
                tc_arguments = (case tcd_function t of None \<Rightarrow> []
                                | Some f \<Rightarrow> (case fd_arguments f of None \<Rightarrow> [] | Some s \<Rightarrow> s)) \<rparr>] \<and>
           toolCallsIndex (addToolCallDelta t acc) =
             (tcd_index t, length (toolCalls acc)) # toolCallsIndex acc
       | Some p \<Rightarrow>
           p < length (toolCalls acc) \<and> tc_index (toolCalls acc ! p) = tcd_index t \<and>
           toolCalls (addToolCallDelta t acc) =
             (toolCalls acc)
               [p := (toolCalls acc ! p)
                  \<lparr> tc_id := (if truthy (tcd_id t) then the (tcd_id t)
                              else tc_id (toolCalls acc ! p)),
                    tc_type := (if truthy (tcd_type t) then the (tcd_type t)
                                else tc_type (toolCalls acc ! p)),
                    tc_name := tc_name (toolCalls acc ! p) @
                      (case tcd_function t of None \<Rightarrow> []
                       | Some f \<Rightarrow> (case fd_name f of None \<Rightarrow> [] | Some s \<Rightarrow> s)),
                    tc_arguments := tc_arguments (toolCalls acc ! p) @
                      (case tcd_function t of None \<Rightarrow> []
                       | Some f \<Rightarrow> (case fd_arguments f of None \<Rightarrow> [] | Some s \<Rightarrow> s)) \<rparr>] \<and>
           toolCallsIndex (addToolCallDelta t acc) = toolCallsIndex acc"
  proof (cases "map_of (toolCallsIndex acc) (tcd_index t)")
    case None
    with addToolCallDelta_new [OF None] show ?thesis by simp
  next
    case (Some p)
    from tool_calls_indexed_lookup [OF inv Some]
    have p: "p < length (toolCalls acc)" "tc_index (toolCalls acc ! p) = tcd_index t"
      by simp_all
    with addToolCallDelta_known [OF Some p(1)] Some show ?thesis by simp
  qed
qed

theorem tool_call_fragments_witness:
  "tool_calls_indexed (DeltaAccumulator ''m'' default_options) \<and>
   toolCalls (addToolCallDelta fragment1 (DeltaAccumulator ''m'' default_options)) =
     [\<lparr> tc_index = 0, tc_id = ''call_'', tc_type = ''function'', tc_name = ''get_'',
        tc_arguments = ''{\"q\":'' \<rparr>] \<and>
   tool_calls_indexed (addToolCallDelta fragment1 (DeltaAccumulator ''m'' default_options)) \<and>
   map_of (toolCallsIndex (addToolCallDelta fragment1 (DeltaAccumulator ''m'' default_options)))
     (tcd_index fragment2) = Some 0 \<and>
   toolCalls (addToolCallDelta fragment2
                (addToolCallDelta fragment1 (DeltaAccumulator ''m'' default_options))) =
     [\<lparr> tc_index = 0, tc_id = ''1'', tc_type = ''function'', tc_name = ''get_time'',
        tc_arguments = ''{\"q\":1}'' \<rparr>] \<and>
   tool_calls_indexed (addToolCallDelta fragment2
                (addToolCallDelta fragment1 (DeltaAccumulator ''m'' default_options))) \<and>
   snd (transformDelta host0 (strip_tool_calls tool_call_event) (DeltaAccumulator ''m'' default_options)) =
     snd (transformDelta host0 tool_call_event (DeltaAccumulator ''m'' default_options))"
  using tool_call_fragments [where acc = "DeltaAccumulator ''m'' default_options"
      and t = fragment1 and h = host0 and ev = tool_call_event]
    tool_call_fragments [where acc = "addToolCallDelta fragment1 (DeltaAccumulator ''m'' default_options)"
      and t = fragment2 and h = host0 and ev = tool_call_event]
  by (simp add: fragment1_def fragment2_def input_defs tool_calls_indexed_def)

text \<open>
  C3 as stated has the id concatenated like the name and the arguments. Of the two id
  fragments "call_" and "1" of the call with index 0 the entry keeps the second, not
  "call_1".
\<close>

theorem tool_call_fragments_counterexample:
  "tcd_index fragment1 = tcd_index fragment2 \<and>
   tcd_id fragment1 = Some ''call_'' \<and> tcd_id fragment2 = Some ''1'' \<and>
   map tc_id (toolCalls (addToolCallDelta fragment2
               (addToolCallDelta fragment1 (DeltaAccumulator ''m'' default_options)))) = [''1'']"
  by (simp add: fragment1_def fragment2_def input_defs addToolCallDelta_def Let_def)

section \<open>Properties of the frame parser\<close>

lemmas parser_defs = parse_def SSEParser_def startsWith_def new_current_event_def Let_def

text \<open>
  C8. A fresh parser with the default limit is fed the chunk \<^verbatim>\<open>data: {"a":1\<close> and then
  the chunk of a closing brace and two line feeds. The first call returns no event and
  keeps the incomplete line in the buffer; the second call returns exactly one event,
  named message, with index 1, whose payload is what JSON.parse makes of \<^verbatim>\<open>{"a":1}\<close>, the
  object {a: 1}; the buffer is empty afterwards.
\<close>

theorem partial_frame_reassembly:
  assumes "json ''{\"a\":1}'' = Value (Some (JObject [(''a'', JNumber 1)]))"
  shows "parse json chunk1 (SSEParser None) =
           ((SSEParser None) \<lparr> buffer := chunk1 \<rparr>, Inr []) \<and>
         parse json chunk2 ((SSEParser None) \<lparr> buffer := chunk1 \<rparr>) =
           ((SSEParser None) \<lparr> buffer := [], eventCount := 1 \<rparr>,
            Inr [\<lparr> sse_event = ''message'', sse_data = Some (JObject [(''a'', JNumber 1)]),
                   sse_index = 1, sse_id = None, sse_retry = None \<rparr>])"
  using assms by (simp add: chunk1_def chunk2_def parser_defs)

theorem partial_frame_reassembly_witness:
  "json_a1 ''{\"a\":1}'' = Value (Some (JObject [(''a'', JNumber 1)])) \<and>
   snd (parse json_a1 chunk1 (SSEParser None)) = Inr [] \<and>
   snd (parse json_a1 chunk2 (fst (parse json_a1 chunk1 (SSEParser None)))) =
     Inr [\<lparr> sse_event = ''message'', sse_data = Some (JObject [(''a'', JNumber 1)]),
            sse_index = 1, sse_id = None, sse_retry = None \<rparr>]"
  using partial_frame_reassembly [of json_a1] by (simp add: json_a1_def)

subsection \<open>The limit on the frame buffer\<close>

lemma parse_raises:
  "parser_maxBufferSize p < length (buffer p @ chunk) \<Longrightarrow>
     parse json chunk p =
       (p \<lparr> buffer := buffer p @ chunk \<rparr>, Inl (SSEBufferExceeded (parser_maxBufferSize p)))"
  by (simp add: parse_def Let_def)

lemma parse_all_raises:
  "parser_maxBufferSize p < length (buffer p) \<Longrightarrow>
     list_all isl (snd (parse_all json chunks p)) \<and>
     length (snd (parse_all json chunks p)) = length chunks \<and>
     fst (parse_all json chunks p) = p \<lparr> buffer := buffer p @ concat chunks \<rparr>"
proof (induction chunks arbitrary: p)
  case Nil
  then show ?case by simp
next
  case (Cons c cs)
  from Cons.prems have "parser_maxBufferSize p < length (buffer p @ c)" by simp
  from parse_raises [OF this, of json]
  have pr: "parse json c p =
      (p \<lparr> buffer := buffer p @ c \<rparr>, Inl (SSEBufferExceeded (parser_maxBufferSize p)))" .
  from Cons.prems
  have "parser_maxBufferSize (p \<lparr> buffer := buffer p @ c \<rparr>) < length (buffer (p \<lparr> buffer := buffer p @ c \<rparr>))"
    by simp
  from Cons.IH [OF this] pr show ?case
    by (cases "parse_all json cs (p \<lparr> buffer := buffer p @ c \<rparr>)") simp
qed

lemma parse_after_reset:
  "length chunk \<le> parser_maxBufferSize p \<Longrightarrow> \<not> isl (snd (parse json chunk (reset p)))"
  by (simp add: parse_def reset_def Let_def split: prod.splits)

text \<open>
  C10. When the buffer with the new chunk appended is longer than maxBufferSize, parse
  raises the buffer error and returns no event, whatever the chunk holds, and the buffer
  keeps the chunk. Every later call of parse, whatever its chunk, raises again. After
  reset the buffer is empty, and parse accepts a chunk exactly when the chunk alone is
  within the limit.
\<close>

theorem parse_overflow:
  assumes "parser_maxBufferSize p < length (buffer p @ chunk)"
  shows "parse json chunk p =
           (p \<lparr> buffer := buffer p @ chunk \<rparr>, Inl (SSEBufferExceeded (parser_maxBufferSize p))) \<and>
         list_all isl (snd (parse_all json chunks (fst (parse json chunk p)))) \<and>
         length (snd (parse_all json chunks (fst (parse json chunk p)))) = length chunks \<and>
         buffer (reset (fst (parse_all json chunks (fst (parse json chunk p))))) = [] \<and>
         (if length c \<le> parser_maxBufferSize p
          then \<not> isl (snd (parse json c (reset (fst (parse_all json chunks (fst (parse json chunk p)))))))
          else isl (snd (parse json c (reset (fst (parse_all json chunks (fst (parse json chunk p))))))))"
proof -
  let ?p1 = "p \<lparr> buffer := buffer p @ chunk \<rparr>"
  from parse_raises [OF assms, of json]
  have pr: "parse json chunk p = (?p1, Inl (SSEBufferExceeded (parser_maxBufferSize p)))" .
  from assms have "parser_maxBufferSize ?p1 < length (buffer ?p1)" by simp
  from parse_all_raises [OF this, of json chunks]
  have all: "list_all isl (snd (parse_all json chunks ?p1))"
    "length (snd (parse_all json chunks ?p1)) = length chunks"
    "fst (parse_all json chunks ?p1) = ?p1 \<lparr> buffer := buffer ?p1 @ concat chunks \<rparr>"
    by simp_all
  have mx: "parser_maxBufferSize (fst (parse_all json chunks ?p1)) = parser_maxBufferSize p"
    by (simp add: all(3))
  have "if length c \<le> parser_maxBufferSize p
        then \<not> isl (snd (parse json c (reset (fst (parse_all json chunks ?p1)))))
        else isl (snd (parse json c (reset (fst (parse_all json chunks ?p1)))))"
    using mx by (simp add: parse_def reset_def Let_def split: prod.splits)
  moreover have "buffer (reset (fst (parse_all json chunks ?p1))) = []"
    by (simp add: reset_def)
  ultimately show ?thesis using pr all(1,2) by simp
qed

theorem parse_overflow_witness:
  "parser_maxBufferSize small_parser < length (buffer small_parser @ complete_frame) \<and>
   parse json_a1 complete_frame small_parser =
     (small_parser \<lparr> buffer := complete_frame \<rparr>, Inl (SSEBufferExceeded 8)) \<and>
   list_all isl (snd (parse_all json_a1 [[CHR 0x0A], complete_frame]
                        (fst (parse json_a1 complete_frame small_parser)))) \<and>
   snd (parse json_a1 ''data: 1'' (reset (fst (parse_all json_a1 [[CHR 0x0A], complete_frame]
                        (fst (parse json_a1 complete_frame small_parser)))))) = Inr []"
  using parse_overflow [where p = small_parser and chunk = complete_frame and json = json_a1
      and chunks = "[[CHR 0x0A], complete_frame]" and c = "''data: 1''"]
  by (simp add: small_parser_def complete_frame_def SSEParser_def parse_def reset_def Let_def)

section \<open>Properties of the buffered request transformer\<close>

lemmas request_defs = transformRequest_def transformRequest_try_def extractThinkingControl_def
  sanitizeMessages_def sanitizeMessage_def injectReasoningParams_def mapModel_def
  getMaxTokens_def Let_def

text \<open>
  A request that is transformed: the tags are found whatever their case, the later
  parameters are copied, sampling is switched on, and with thinking off no reasoning
  parameter is added.
\<close>

lemma request_tags_transformed:
  "transformRequest True request_tags =
     \<lparr> openaiRequest =
         JObject [(''model'', JString ''GLM-4.6''),
                  (''messages'', JArray [JObject [(''role'', JString ''user''),
                                                  (''content'', JString ''<Thinking:Off> <effort:HIGH> hi'')]]),
                  (''max_tokens'', JNumber 128000),
                  (''stream'', JBool False),
                  (''temperature'', JNumber (1 / 2)),
                  (''do_sample'', JBool True)],
       thinkingConfig = \<lparr> thinking = False, effort = Some ''high'' \<rparr>,
       error = None \<rparr>"
  by code_simp

subsection \<open>The requests on which the transformation fails\<close>

text \<open>
  The \<^verbatim>\<open>try\<close> block throws exactly when the request is \<^verbatim>\<open>null\<close> or \<^verbatim>\<open>undefined\<close>, or
  its \<^verbatim>\<open>messages\<close> is a truthy value that is not an array, or one of the messages is
  \<^verbatim>\<open>null\<close>, or the content array of one of the messages holds a \<^verbatim>\<open>null\<close>. The injection
  of the parameters never throws.
\<close>

lemma get_prop_fails: "isl (get_prop v p) = nullish v"
  by (cases v) (simp_all add: nullish_def)

lemma get_prop_ok: "\<not> nullish v \<Longrightarrow> \<exists>x. get_prop v p = Inr x"
  by (cases v) (simp_all add: nullish_def)

lemma extract_loop_fails: "isl (extract_loop msgs config) = (\<exists>m \<in> set msgs. nullish m)"
proof (induction msgs arbitrary: config)
  case Nil
  then show ?case by simp
next
  case (Cons msg msgs)
  show ?case
  proof (cases "nullish msg")
    case True
    then have "isl (get_prop msg ''role'')" by (simp add: get_prop_fails)
    with True show ?thesis by (auto split: sum.splits)
  next
    case False
    then obtain r c where g: "get_prop msg ''role'' = Inr r" "get_prop msg ''content'' = Inr c"
      using get_prop_ok [of msg "''role''"] get_prop_ok [of msg "''content''"]
      by blast
    with False Cons.IH show ?thesis
      by (auto simp: Let_def split: js.splits option.splits)
  qed
qed


lemma filter_text_fails: "isl (filter_text blocks) = (\<exists>b \<in> set blocks. nullish b)"
proof (induction blocks)
  case Nil
  then show ?case by simp
next
  case (Cons b bs)
  show ?case
  proof (cases "nullish b")
    case True
    then have "isl (get_prop b ''type'')" by (simp add: get_prop_fails)
    with True show ?thesis by (auto split: sum.splits)
  next
    case False
    then obtain t where "get_prop b ''type'' = Inr t"
      using get_prop_ok [of b "''type''"] by blast
    with False Cons.IH show ?thesis by (auto split: sum.splits)
  qed
qed

lemma filter_text_keeps: "filter_text blocks = Inr kept \<Longrightarrow> set kept \<subseteq> set blocks"
  by (induction blocks arbitrary: kept) (auto split: sum.splits if_splits)

lemma sanitizeMessage_fails:
  "isl (sanitizeMessage msg) =
     (nullish msg \<or>
      (\<exists>blocks. get_prop msg ''content'' = Inr (JArray blocks) \<and> (\<exists>b \<in> set blocks. nullish b)))"
proof (cases "nullish msg")
  case True
  then have "isl (get_prop msg ''content'')" by (simp add: get_prop_fails)
  with True show ?thesis by (auto simp: sanitizeMessage_def split: sum.splits)
next
  case False
  then obtain r c where g: "get_prop msg ''role'' = Inr r" "get_prop msg ''content'' = Inr c"
    using get_prop_ok [of msg "''role''"] get_prop_ok [of msg "''content''"] by blast
  show ?thesis
  proof (cases "\<exists>blocks. c = JArray blocks")
    case notarr: False
    with False g show ?thesis by (cases c) (simp_all add: sanitizeMessage_def)
  next
    case True
    then obtain blocks where c: "c = JArray blocks" by blast
    show ?thesis
    proof (cases "filter_text blocks")
      case (Inl e)
      with filter_text_fails [of blocks] have "\<exists>b \<in> set blocks. nullish b" by simp
      with Inl g c show ?thesis by (simp add: sanitizeMessage_def)
    next
      case (Inr kept)
      with filter_text_fails [of blocks] have ok: "\<not> (\<exists>b \<in> set blocks. nullish b)" by simp
      have "\<not> isl (sanitizeMessage msg)"
      proof (cases kept)
        case Nil
        with Inr g c show ?thesis by (simp add: sanitizeMessage_def)
      next
        case (Cons k ks)
        with filter_text_keeps [OF Inr] ok have "\<not> nullish k" by auto
        then obtain t where "get_prop k ''text'' = Inr t"
          using get_prop_ok [of k "''text''"] by blast
        with Cons Inr g c show ?thesis
          by (cases ks) (simp_all add: sanitizeMessage_def)
      qed
      with False ok g c show ?thesis by simp
    qed
  qed
qed

lemma sanitize_all_fails:
  "isl (sanitize_all msgs) = (\<exists>msg \<in> set msgs. isl (sanitizeMessage msg))"
  by (induction msgs) (auto split: sum.splits)

lemma extract_loop_chars: "\<not> isl (extract_loop (map (\<lambda>c. JString [c]) s) config)"
  by (simp add: extract_loop_fails nullish_def)

lemma transformRequest_try_fails:
  "isl (transformRequest_try defaultThinking anthropicRequest) =
     (nullish anthropicRequest \<or>
      (\<exists>m. get_prop anthropicRequest ''messages'' = Inr m \<and> js_truthy m \<and>
           (case m of
              JArray msgs \<Rightarrow>
                \<exists>msg \<in> set msgs.
                  nullish msg \<or>
                  (\<exists>blocks. get_prop msg ''content'' = Inr (JArray blocks) \<and>
                            (\<exists>b \<in> set blocks. nullish b))
            | _ \<Rightarrow> True)))"
proof (cases "nullish anthropicRequest")
  case True
  then have "isl (get_prop anthropicRequest ''messages'')" by (simp add: get_prop_fails)
  with True show ?thesis by (auto simp: transformRequest_try_def split: sum.splits)
next
  case False
  then obtain m am st te tp where g:
    "get_prop anthropicRequest ''messages'' = Inr m"
    "get_prop anthropicRequest ''model'' = Inr am"
    "get_prop anthropicRequest ''stream'' = Inr st"
    "get_prop anthropicRequest ''temperature'' = Inr te"
    "get_prop anthropicRequest ''top_p'' = Inr tp"
    using get_prop_ok [of anthropicRequest] by metis
  define messages where "messages = (if js_truthy m then m else JArray [])"
  have shape: "isl (transformRequest_try defaultThinking anthropicRequest) =
      (isl (extractThinkingControl defaultThinking messages) \<or> isl (sanitizeMessages messages))"
    using g by (auto simp: transformRequest_try_def messages_def Let_def split: sum.splits)
  show ?thesis
  proof (cases "js_truthy m")
    case falsy: False
    then have "messages = JArray []" by (simp add: messages_def)
    with shape False g falsy show ?thesis
      by (simp add: extractThinkingControl_def sanitizeMessages_def)
  next
    case True
    then have mm: "messages = m" by (simp add: messages_def)
    show ?thesis
    proof (cases m)
      case (JArray msgs)
      have "(\<exists>msg \<in> set msgs. nullish msg) \<or> (\<exists>msg \<in> set msgs. isl (sanitizeMessage msg)) \<longleftrightarrow>
            (\<exists>msg \<in> set msgs. nullish msg \<or>
               (\<exists>blocks. get_prop msg ''content'' = Inr (JArray blocks) \<and>
                         (\<exists>b \<in> set blocks. nullish b)))"
        by (auto simp: sanitizeMessage_fails)
      moreover have "isl (sanitizeMessages (JArray msgs)) = isl (sanitize_all msgs)"
        by (simp add: sanitizeMessages_def split: sum.splits)
      ultimately show ?thesis
        using shape False g True mm JArray
        by (simp add: extractThinkingControl_def extract_loop_fails sanitize_all_fails)
    next
      case (JString s)
      with shape False g True mm show ?thesis
        by (simp add: extractThinkingControl_def sanitizeMessages_def)
    qed (use shape False g True mm in \<open>simp_all add: extractThinkingControl_def\<close>)
  qed
qed

subsection \<open>The fallback\<close>

text \<open>
  C9. transformRequest is a total function: it returns a result for every request and
  raises nothing. For every request on which the body of the transformation throws,
  whatever the step, the result holds the original request itself, a directive
  configuration with thinking = false, and the error.
\<close>

theorem transformRequest_fallback:
  "transformRequest_try defaultThinking anthropicRequest = Inl e \<Longrightarrow>
     transformRequest defaultThinking anthropicRequest =
       \<lparr> openaiRequest = anthropicRequest,
         thinkingConfig = \<lparr> thinking = False, effort = None \<rparr>,
         error = Some e \<rparr>"
  by (simp add: transformRequest_def)

theorem transformRequest_fallback_witness:
  "transformRequest_try True request_messages_number = Inl TypeError \<and>
   transformRequest True request_messages_number =
     \<lparr> openaiRequest = request_messages_number,
       thinkingConfig = \<lparr> thinking = False, effort = None \<rparr>, error = Some TypeError \<rparr> \<and>
   transformRequest_try True request_null_block = Inl TypeError \<and>
   transformRequest True request_null_block =
     \<lparr> openaiRequest = request_null_block,
       thinkingConfig = \<lparr> thinking = False, effort = None \<rparr>, error = Some TypeError \<rparr> \<and>
   transformRequest_try True JNull = Inl TypeError \<and>
   transformRequest True JNull =
     \<lparr> openaiRequest = JNull,
       thinkingConfig = \<lparr> thinking = False, effort = None \<rparr>, error = Some TypeError \<rparr>"
  using transformRequest_fallback [of True request_messages_number TypeError]
    transformRequest_fallback [of True request_null_block TypeError]
    transformRequest_fallback [of True JNull TypeError]
  by (simp add: transformRequest_try_def extractThinkingControl_def sanitizeMessages_def
      sanitizeMessage_def request_messages_number_def request_null_block_def Let_def)


end
